theory Spec2Isabelle
  imports Complex_Main
begin

section \<open>Tech mapping: exclusion pixels to resource and generation sites\<close>

text \<open>
  A shallow embedding of \<^verbatim>\<open>reV/supply_curve/tech_mapping.py\<close> (class
  \<^verbatim>\<open>TechMapping\<close>). Numbers of every numpy dtype are modelled as exact reals, so
  a numeric array is a \<^typ>\<open>real list\<close> and a dtype cast is the identity; an index
  array holds integral reals, with the sentinel \<open>-1\<close>. Exceptions are values of the
  type \<open>error\<close>; warnings and log lines are values that the functions return.
\<close>

subsection \<open>Errors, warnings and log events\<close>

datatype error = KeyError | FileInputError | ValueError | IndexError | TypeError | OSError

text \<open>The three messages that \<^verbatim>\<open>_check_fout\<close> can pass to \<^verbatim>\<open>warn\<close>.\<close>

datatype warning = NoExclAttr | ExclMismatch | DsetReplaced

text \<open>The one log line that a claim is about: the inferred distance bound.\<close>

datatype event = InferredBound real

subsection \<open>The output file\<close>

text \<open>
  An h5 dataset of the output file: its 2D shape, its values in row-major order, and its
  two attributes \<^verbatim>\<open>fpath\<close> and \<^verbatim>\<open>distance_upper_bound\<close>. An h5 file: its
  attributes and its datasets by name. The file system maps a path to the file there.
\<close>

record dataset =
  dshape :: "nat \<times> nat"
  ddata :: "real list"
  dattr_fpath :: "string option"
  dattr_dub :: "real option"

record h5file =
  attrs :: "string \<rightharpoonup> string"
  dsets :: "string \<rightharpoonup> dataset"

type_synonym files = "string \<rightharpoonup> h5file"

text \<open>\<^verbatim>\<open>os.path.basename\<close>: what follows the last slash.\<close>

definition basename :: "string \<Rightarrow> string" where
  "basename p = rev (takeWhile (\<lambda>c. c \<noteq> CHR ''/'') (rev p))"

subsection \<open>The inputs\<close>

text \<open>
  The exclusion raster behind \<^verbatim>\<open>fpath_excl\<close>: its shape and the (latitude,
  longitude) of the pixel at a row and a column (the raw exclusion meta). One row of the
  meta table of the resource or generation file behind \<^verbatim>\<open>fpath_map\<close>: the site's
  coordinates and, in a generation file, the resource-site id in its \<^verbatim>\<open>gid\<close>
  column; the row's position is the site's id.
\<close>

type_synonym coord = "real \<times> real"

record raster =
  excl_rows :: nat
  excl_cols :: nat
  excl_coord :: "nat \<Rightarrow> nat \<Rightarrow> coord"

record site =
  latitude :: real
  longitude :: real
  gid :: nat

text \<open>
  The \<^verbatim>\<open>TechMapping\<close> object: the fields that \<^verbatim>\<open>__init__\<close> sets, together with
  the contents of the two read-only input files that its paths name.
\<close>

record tech_mapping =
  tm_distance_upper_bound :: "real option"
  tm_fpath_excl :: string
  tm_fpath_map :: string
  tm_fpath_out :: string
  tm_dset :: string
  tm_resolution :: nat
  tm_n_cores :: nat
  tm_exclusions :: raster
  tm_map_meta :: "site list"

subsection \<open>\<^verbatim>\<open>_check_fout\<close>\<close>

text \<open>
  The check of a pre-existing output file. \<^verbatim>\<open>wmsg\<close> is assigned up to three times
  and the last assignment wins; the second test reads \<^verbatim>\<open>f.attrs['fpath_excl']\<close>
  whether or not the first test found the attribute, and h5py raises \<^verbatim>\<open>KeyError\<close>
  for an attribute that is not there. The result is the warning issued, if any, and the
  exception raised, if any (the warning is issued before \<^verbatim>\<open>FileInputError\<close> is
  raised; \<^verbatim>\<open>KeyError\<close> leaves the function before any warning).
\<close>

definition check_fout :: "h5file option \<Rightarrow> string \<Rightarrow> string \<Rightarrow> warning option \<times> error option" where
  "check_fout fout fpath_excl dset =
     (case fout of
        None \<Rightarrow> (None, None)
      | Some f \<Rightarrow>
          let wmsg = (if attrs f ''fpath_excl'' = None then Some NoExclAttr else None) in
          (case attrs f ''fpath_excl'' of
             None \<Rightarrow> (None, Some KeyError)
           | Some a \<Rightarrow>
               let wmsg = (if basename a \<noteq> basename fpath_excl then Some ExclMismatch else wmsg);
                   emsg = (if dsets f ''latitude'' = None \<or> dsets f ''longitude'' = None
                           then Some FileInputError else None);
                   wmsg = (if dsets f dset \<noteq> None then Some DsetReplaced else wmsg)
               in (wmsg, emsg)))"

subsection \<open>The property \<^verbatim>\<open>distance_upper_bound\<close>\<close>

text \<open>\<^verbatim>\<open>np.roll(xs, 1)\<close>: every entry moves one place up and the last comes first.\<close>

definition roll1 :: "'a list \<Rightarrow> 'a list" where
  "roll1 xs = (if xs = [] then [] else last xs # butlast xs)"

text \<open>
  \<^verbatim>\<open>dists = np.abs(lats - np.roll(lats, 1)); dists = dists[(dists != 0)]\<close>
\<close>

definition lat_dists :: "real list \<Rightarrow> real list" where
  "lat_dists lats = filter (\<lambda>d. d \<noteq> 0) (map2 (\<lambda>a b. \<bar>a - b\<bar>) lats (roll1 lats))"

text \<open>\<^verbatim>\<open>arr.min()\<close>, which raises \<^verbatim>\<open>ValueError\<close> on an array of size zero.\<close>

definition np_min :: "real list \<Rightarrow> error + real" where
  "np_min xs = (case xs of [] \<Rightarrow> Inl ValueError | x # ys \<Rightarrow> Inr (fold min ys x))"

text \<open>
  The property: a supplied bound is returned as it is; otherwise the bound is inferred
  from the latitudes of the meta of \<^verbatim>\<open>fpath_map\<close>, stored in the object and logged.
  The result is the bound, the object after the access and the lines logged.
\<close>

definition distance_upper_bound :: "tech_mapping \<Rightarrow> error + (real \<times> tech_mapping \<times> event list)" where
  "distance_upper_bound tm =
     (case tm_distance_upper_bound tm of
        Some d \<Rightarrow> Inr (d, tm, [])
      | None \<Rightarrow>
          (case np_min (lat_dists (map latitude (tm_map_meta tm))) of
             Inl e \<Rightarrow> Inl e
           | Inr g \<Rightarrow>
               let d = 1.05 * sqrt 2 * (g / 2)
               in Inr (d, tm\<lparr>tm_distance_upper_bound := Some d\<rparr>, [InferredBound d])))"


subsection \<open>Extent addressing\<close>

text \<open>
  Modelled from the spec: \<^verbatim>\<open>SupplyCurveExtent\<close> (\<^verbatim>\<open>reV/supply_curve/points.py\<close>)
  is not among the sources. The spec has a gid name one chunk, a block of resolution by
  resolution pixels, the gids \<open>0..num_chunks-1\<close> cover the raster, and a gid maps to a
  row and column window and to the flat indices of the window's pixels. Here the chunks
  are numbered row by row, a window is a pair of half-open ranges clipped to the raster,
  and a flat index is \<open>row * cols + col\<close>, the window's pixels row by row.
\<close>

record extent =
  sc_exclusions :: raster
  sc_res :: nat

type_synonym slice = "nat \<times> nat"

definition SupplyCurveExtent :: "raster \<Rightarrow> nat \<Rightarrow> extent" where
  "SupplyCurveExtent excl resolution = \<lparr>sc_exclusions = excl, sc_res = resolution\<rparr>"

definition n_chunks :: "nat \<Rightarrow> nat \<Rightarrow> nat" where
  "n_chunks n res = (n + res - 1) div res"

definition sc_len :: "extent \<Rightarrow> nat" where
  "sc_len sc = n_chunks (excl_rows (sc_exclusions sc)) (sc_res sc)
             * n_chunks (excl_cols (sc_exclusions sc)) (sc_res sc)"

definition chunk_slice :: "nat \<Rightarrow> nat \<Rightarrow> nat \<Rightarrow> slice" where
  "chunk_slice res n i = (i * res, min ((i + 1) * res) n)"

definition get_excl_slices :: "extent \<Rightarrow> nat \<Rightarrow> slice \<times> slice" where
  "get_excl_slices sc g =
     (let nc = n_chunks (excl_cols (sc_exclusions sc)) (sc_res sc)
      in (chunk_slice (sc_res sc) (excl_rows (sc_exclusions sc)) (g div nc),
          chunk_slice (sc_res sc) (excl_cols (sc_exclusions sc)) (g mod nc)))"

text \<open>The (row, column) pairs of a window, row by row: the order of \<^verbatim>\<open>flatten()\<close>.\<close>

definition window_cells :: "slice \<Rightarrow> slice \<Rightarrow> (nat \<times> nat) list" where
  "window_cells rs cs = List.product [fst rs..<snd rs] [fst cs..<snd cs]"

definition get_flat_excl_ind :: "extent \<Rightarrow> nat \<Rightarrow> nat list" where
  "get_flat_excl_ind sc g =
     (case get_excl_slices sc g of
        (rs, cs) \<Rightarrow> map (\<lambda>(r, c). r * excl_cols (sc_exclusions sc) + c) (window_cells rs cs))"

text \<open>\<^verbatim>\<open>sc.exclusions['meta', row_slice, col_slice]\<close>: the raw coordinates of a window.\<close>

definition excl_meta :: "raster \<Rightarrow> slice \<Rightarrow> slice \<Rightarrow> coord list" where
  "excl_meta excl rs cs = map (\<lambda>(r, c). excl_coord excl r c) (window_cells rs cs)"

subsection \<open>Arrays\<close>

text \<open>
  \<^verbatim>\<open>dset[row_slice, col_slice].flatten()\<close> on a stored 2D dataset: a slice is clipped
  to the dataset's shape, as numpy and h5py clip it.
\<close>

definition clip :: "nat \<Rightarrow> slice \<Rightarrow> slice" where
  "clip n sl = (min (fst sl) n, min (snd sl) n)"

definition read_window :: "dataset \<Rightarrow> slice \<Rightarrow> slice \<Rightarrow> real list" where
  "read_window d rs cs =
     map (\<lambda>(r, c). ddata d ! (r * snd (dshape d) + c))
       (window_cells (clip (fst (dshape d)) rs) (clip (snd (dshape d)) cs))"

definition np_max :: "real list \<Rightarrow> error + real" where
  "np_max xs = (case xs of [] \<Rightarrow> Inl ValueError | x # ys \<Rightarrow> Inr (fold max ys x))"

text \<open>
  \<^verbatim>\<open>arr[idx] = vals\<close> with an index array: an index out of range raises
  \<^verbatim>\<open>IndexError\<close>; values of the indices' length are stored one by one, a single
  value (a scalar or an array of length one) is broadcast, and any other length raises
  \<^verbatim>\<open>ValueError\<close>.
\<close>

definition np_setitem :: "'a list \<Rightarrow> nat list \<Rightarrow> 'a list \<Rightarrow> error + 'a list" where
  "np_setitem arr idx vals =
     (if \<exists>i \<in> set idx. length arr \<le> i then Inl IndexError
      else if length vals = length idx then Inr (fold (\<lambda>(i, v) a. a[i := v]) (zip idx vals) arr)
      else if length vals = 1 then Inr (fold (\<lambda>i a. a[i := hd vals]) idx arr)
      else Inl ValueError)"

text \<open>
  \<^verbatim>\<open>np.array_split(xs, k)\<close>: \<open>k\<close> consecutive pieces, the first \<open>n mod k\<close> of them
  one element longer; \<^verbatim>\<open>ValueError\<close> when \<open>k\<close> is zero.
\<close>

fun split_sizes :: "'a list \<Rightarrow> nat list \<Rightarrow> 'a list list" where
  "split_sizes xs [] = []"
| "split_sizes xs (n # ns) = take n xs # split_sizes (drop n xs) ns"

definition array_split :: "'a list \<Rightarrow> nat \<Rightarrow> error + 'a list list" where
  "array_split xs k =
     (if k = 0 then Inl ValueError
      else Inr (split_sizes xs
             (replicate (length xs mod k) (length xs div k + 1)
              @ replicate (k - length xs mod k) (length xs div k))))"

text \<open>
  \<^verbatim>\<open>gids = np.array(list(range(len(self._sc))));
  gid_chunks = np.array_split(gids, int(np.ceil(len(gids) / 2)))\<close>
\<close>

definition gid_chunks :: "extent \<Rightarrow> error + nat list list" where
  "gid_chunks sc = array_split [0..<sc_len sc] ((sc_len sc + 1) div 2)"

text \<open>\<^verbatim>\<open>_init_out_arrays\<close>: one entry per pixel, \<open>-1\<close> and zero coordinates.\<close>

definition init_out_arrays :: "extent \<Rightarrow> real list \<times> coord list" where
  "init_out_arrays sc =
     (replicate (excl_rows (sc_exclusions sc) * excl_cols (sc_exclusions sc)) (- 1),
      replicate (excl_rows (sc_exclusions sc) * excl_cols (sc_exclusions sc)) (0, 0))"

subsection \<open>\<^verbatim>\<open>_unpack_coords\<close>\<close>

text \<open>
  The coordinates of one gid's pixels: from the cached \<^verbatim>\<open>latitude\<close> and
  \<^verbatim>\<open>longitude\<close> datasets when the output file exists (\<^verbatim>\<open>KeyError\<close> when one is
  not there, \<^verbatim>\<open>ValueError\<close> from \<^verbatim>\<open>np.vstack\<close> when their windows differ in
  size), from the raw exclusion meta otherwise.
\<close>

definition gid_emeta :: "extent \<Rightarrow> h5file option \<Rightarrow> nat \<Rightarrow> error + coord list" where
  "gid_emeta sc fout g =
     (case get_excl_slices sc g of
        (rs, cs) \<Rightarrow>
          (case fout of
             Some f \<Rightarrow>
               (case dsets f ''latitude'' of
                  None \<Rightarrow> Inl KeyError
                | Some la \<Rightarrow>
                    (case dsets f ''longitude'' of
                       None \<Rightarrow> Inl KeyError
                     | Some lo \<Rightarrow>
                         if length (read_window la rs cs) = length (read_window lo rs cs)
                         then Inr (zip (read_window la rs cs) (read_window lo rs cs))
                         else Inl ValueError))
           | None \<Rightarrow> Inr (excl_meta (sc_exclusions sc) rs cs)))"

text \<open>
  The running bounding box: \<^verbatim>\<open>None\<close> before the first gid; \<^verbatim>\<open>np.min\<close> and
  \<^verbatim>\<open>np.max\<close> raise \<^verbatim>\<open>ValueError\<close> on a gid with no pixel.
\<close>

definition widen :: "(real \<times> real) option \<Rightarrow> real \<Rightarrow> real \<Rightarrow> real \<times> real" where
  "widen rng lo hi =
     (case rng of None \<Rightarrow> (lo, hi) | Some (a, b) \<Rightarrow> (min a lo, max b hi))"

fun unpack_coords_loop ::
  "extent \<Rightarrow> h5file option \<Rightarrow> nat list
   \<Rightarrow> coord list list \<times> (real \<times> real) option \<times> (real \<times> real) option
   \<Rightarrow> error + (coord list list \<times> (real \<times> real) option \<times> (real \<times> real) option)" where
  "unpack_coords_loop sc fout [] acc = Inr acc"
| "unpack_coords_loop sc fout (g # gids) (coords_out, lat_range, lon_range) =
     (case gid_emeta sc fout g of
        Inl e \<Rightarrow> Inl e
      | Inr emeta \<Rightarrow>
          (case np_min (map fst emeta) of
             Inl e \<Rightarrow> Inl e
           | Inr lat_lo \<Rightarrow>
               (case np_max (map fst emeta) of
                  Inl e \<Rightarrow> Inl e
                | Inr lat_hi \<Rightarrow>
                    (case np_min (map snd emeta) of
                       Inl e \<Rightarrow> Inl e
                     | Inr lon_lo \<Rightarrow>
                         (case np_max (map snd emeta) of
                            Inl e \<Rightarrow> Inl e
                          | Inr lon_hi \<Rightarrow>
                              unpack_coords_loop sc fout gids
                                (coords_out @ [emeta],
                                 Some (widen lat_range lat_lo lat_hi),
                                 Some (widen lon_range lon_lo lon_hi)))))))"

definition unpack_coords ::
  "nat list \<Rightarrow> extent \<Rightarrow> h5file option
   \<Rightarrow> error + (coord list list \<times> (real \<times> real) option \<times> (real \<times> real) option)" where
  "unpack_coords gids sc fout = unpack_coords_loop sc fout gids ([], None, None)"


subsection \<open>The resource worker \<^verbatim>\<open>map_resource_gids\<close>\<close>

definition site_coord :: "site \<Rightarrow> coord" where
  "site_coord s = (latitude s, longitude s)"

definition euclid :: "coord \<Rightarrow> coord \<Rightarrow> real" where
  "euclid p q = sqrt ((fst p - fst q)\<^sup>2 + (snd p - snd q)\<^sup>2)"

text \<open>
  \<^verbatim>\<open>cKDTree(points).query(q)\<close> of scipy, for a tree on the points \<open>p # ps\<close>: the
  Euclidean distance to the nearest point and its position among the points (here the
  first position among equally near points).
\<close>

fun query :: "coord \<Rightarrow> coord list \<Rightarrow> coord \<Rightarrow> real \<times> nat" where
  "query p [] q = (euclid p q, 0)"
| "query p (p' # ps) q =
     (case query p' ps q of
        (d, i) \<Rightarrow> if euclid p q \<le> d then (euclid p q, 0) else (d, Suc i))"

text \<open>The mask of the sites inside the bounding box widened by the margin, and its positions.\<close>

definition in_box :: "real \<times> real \<Rightarrow> real \<times> real \<Rightarrow> real \<Rightarrow> site \<Rightarrow> bool" where
  "in_box lat_range lon_range margin s =
     (latitude s > fst lat_range - margin \<and> latitude s < snd lat_range + margin
      \<and> longitude s > fst lon_range - margin \<and> longitude s < snd lon_range + margin)"

definition mask_ind :: "site list \<Rightarrow> real \<times> real \<Rightarrow> real \<times> real \<Rightarrow> real \<Rightarrow> nat list" where
  "mask_ind res_meta lat_range lon_range margin =
     filter (\<lambda>i. in_box lat_range lon_range margin (res_meta ! i)) [0..<length res_meta]"

text \<open>
  One entry of a worker's result list: the scalar \<open>-1\<close> or an array with one value per
  pixel of the gid.
\<close>

datatype ind_entry = Scalar real | Array "real list"

fun entry_values :: "ind_entry \<Rightarrow> real list" where
  "entry_values (Scalar v) = [v]"
| "entry_values (Array vs) = vs"

text \<open>
  The loop body for one gid, the mask's positions being \<open>m # ms\<close>:
  \<^verbatim>\<open>dist, ind = res_tree.query(coords); ind = mask_ind[ind];
  ind[(dist > distance_upper_bound)] = -1\<close>
\<close>

definition query_gid :: "site list \<Rightarrow> nat \<Rightarrow> nat list \<Rightarrow> real \<Rightarrow> coord list \<Rightarrow> real list" where
  "query_gid res_meta m ms dub coords =
     map (\<lambda>q. case query (site_coord (res_meta ! m)) (map (\<lambda>i. site_coord (res_meta ! i)) ms) q of
                 (d, j) \<Rightarrow> if d > dub then - 1 else real ((m # ms) ! j))
       coords"

text \<open>
  The worker. An empty batch fails at \<^verbatim>\<open>gids[0]\<close> in the first log line. When the
  mask selects no site the result holds the scalar \<open>-1\<close> for every gid.
\<close>

definition map_resource_gids ::
  "nat list \<Rightarrow> raster \<Rightarrow> site list \<Rightarrow> h5file option \<Rightarrow> real \<Rightarrow> nat \<Rightarrow> real
   \<Rightarrow> error + (ind_entry list \<times> coord list list)" where
  "map_resource_gids gids excl res_meta fout dub resolution margin =
     (if gids = [] then Inl IndexError
      else
        (case unpack_coords gids (SupplyCurveExtent excl resolution) fout of
           Inl e \<Rightarrow> Inl e
         | Inr (coords_out, None, _) \<Rightarrow> Inl TypeError
         | Inr (coords_out, Some lat_range, None) \<Rightarrow> Inl TypeError
         | Inr (coords_out, Some lat_range, Some lon_range) \<Rightarrow>
             (case mask_ind res_meta lat_range lon_range margin of
                [] \<Rightarrow> Inr (map (\<lambda>_. Scalar (- 1)) gids, coords_out)
              | m # ms \<Rightarrow>
                  Inr (map (\<lambda>i. Array (query_gid res_meta m ms dub (coords_out ! i)))
                         [0..<length gids],
                       coords_out))))"

subsection \<open>\<^verbatim>\<open>_parallel_resource_map\<close>\<close>

text \<open>
  The scatter of one batch's result:
  \<^verbatim>\<open>for j, gid in enumerate(gid_chunks[i]): i_out_arr = sc.get_flat_excl_ind(gid);
  ind_all[i_out_arr] = result[0][j]; coords_all[i_out_arr, :] = result[1][j]\<close>.
  The two result lists are walked along the gids; a list that ends early is the
  \<^verbatim>\<open>IndexError\<close> of \<^verbatim>\<open>result[0][j]\<close>.
\<close>

fun scatter_resource ::
  "extent \<Rightarrow> nat list \<Rightarrow> ind_entry list \<Rightarrow> coord list list \<Rightarrow> real list \<times> coord list
   \<Rightarrow> error + (real list \<times> coord list)" where
  "scatter_resource sc [] inds coords acc = Inr acc"
| "scatter_resource sc (g # gids) (r # inds) (c # coords) (ind_all, coords_all) =
     (case np_setitem ind_all (get_flat_excl_ind sc g) (entry_values r) of
        Inl e \<Rightarrow> Inl e
      | Inr ind_all' \<Rightarrow>
          (case np_setitem coords_all (get_flat_excl_ind sc g) c of
             Inl e \<Rightarrow> Inl e
           | Inr coords_all' \<Rightarrow> scatter_resource sc gids inds coords (ind_all', coords_all')))"
| "scatter_resource sc (g # gids) inds coords acc = Inl IndexError"

text \<open>
  The collection loop over \<^verbatim>\<open>cf.as_completed(futures)\<close>. The list \<open>order\<close> is the
  order in which the futures complete, as positions of their batches; a worker's
  exception is raised again by \<^verbatim>\<open>future.result()\<close>. The workers get the margin's
  default, 0.1.
\<close>

fun collect_resource ::
  "tech_mapping \<Rightarrow> h5file option \<Rightarrow> real \<Rightarrow> nat list list \<Rightarrow> nat list
   \<Rightarrow> real list \<times> coord list \<Rightarrow> error + (real list \<times> coord list)" where
  "collect_resource tm fout dub chunks [] acc = Inr acc"
| "collect_resource tm fout dub chunks (i # order) acc =
     (case map_resource_gids (chunks ! i) (tm_exclusions tm) (tm_map_meta tm) fout dub
             (tm_resolution tm) (1 / 10) of
        Inl e \<Rightarrow> Inl e
      | Inr (inds, coords) \<Rightarrow>
          (case scatter_resource (SupplyCurveExtent (tm_exclusions tm) (tm_resolution tm))
                  (chunks ! i) inds coords acc of
             Inl e \<Rightarrow> Inl e
           | Inr acc' \<Rightarrow> collect_resource tm fout dub chunks order acc'))"

text \<open>
  The result is the number of tasks submitted to the executor and either an exception or
  the two arrays, the object (its bound now resolved) and the lines logged. The bound is
  read at the first submission, where its inference can fail.
\<close>

definition parallel_resource_map ::
  "tech_mapping \<Rightarrow> h5file option \<Rightarrow> nat list
   \<Rightarrow> nat \<times> (error + (real list \<times> coord list \<times> tech_mapping \<times> event list))" where
  "parallel_resource_map tm fout order =
     (case gid_chunks (SupplyCurveExtent (tm_exclusions tm) (tm_resolution tm)) of
        Inl e \<Rightarrow> (0, Inl e)
      | Inr chunks \<Rightarrow>
          (case distance_upper_bound tm of
             Inl e \<Rightarrow> (0, Inl e)
           | Inr (dub, tm', logged) \<Rightarrow>
               (length chunks,
                (case collect_resource tm fout dub chunks order
                        (init_out_arrays (SupplyCurveExtent (tm_exclusions tm) (tm_resolution tm))) of
                   Inl e \<Rightarrow> Inl e
                 | Inr (ind_all, coords_all) \<Rightarrow> Inr (ind_all, coords_all, tm', logged)))))"

subsection \<open>The generation worker \<^verbatim>\<open>map_gen_gids\<close>\<close>

text \<open>
  \<^verbatim>\<open>pd.merge(res_gid, gen_meta, left_on='res_gid', right_on='gid',
  how='left')['gen_gid']\<close>: for every left row, in order, the positions of the rows of
  the generation meta with that \<^verbatim>\<open>gid\<close>, or one missing value when there is none.
  Then \<^verbatim>\<open>gen_gids[np.isnan(gen_gids)] = -1\<close>.
\<close>

definition merge_left :: "real list \<Rightarrow> site list \<Rightarrow> nat option list" where
  "merge_left res_gid gen_meta =
     concat (map (\<lambda>r. case filter (\<lambda>i. real (gid (gen_meta ! i)) = r) [0..<length gen_meta] of
                         [] \<Rightarrow> [None]
                       | i # js \<Rightarrow> map Some (i # js))
               res_gid)"

definition fill_nan :: "nat option list \<Rightarrow> real list" where
  "fill_nan xs = map (\<lambda>x. case x of None \<Rightarrow> - 1 | Some i \<Rightarrow> real i) xs"

text \<open>
  The worker. The loop has no \<^verbatim>\<open>break\<close>, so the \<^verbatim>\<open>else\<close> clause of the
  \<^verbatim>\<open>for\<close> runs after it and appends one scalar \<open>-1\<close> per gid to the arrays. Opening
  a file that is not there is an \<^verbatim>\<open>OSError\<close>, reading a dataset that is not there a
  \<^verbatim>\<open>KeyError\<close>.
\<close>

definition map_gen_gids ::
  "nat list \<Rightarrow> raster \<Rightarrow> site list \<Rightarrow> h5file option \<Rightarrow> string \<Rightarrow> nat \<Rightarrow> error + ind_entry list" where
  "map_gen_gids gids excl gen_meta fout res_map_dset resolution =
     (if gids = [] then Inl IndexError
      else
        (case fout of
           None \<Rightarrow> Inl OSError
         | Some f \<Rightarrow>
             (case dsets f res_map_dset of
                None \<Rightarrow> Inl KeyError
              | Some d \<Rightarrow>
                  Inr (map (\<lambda>g. case get_excl_slices (SupplyCurveExtent excl resolution) g of
                                   (rs, cs) \<Rightarrow> Array (fill_nan (merge_left (read_window d rs cs) gen_meta)))
                         gids
                       @ map (\<lambda>_. Scalar (- 1)) gids))))"

subsection \<open>\<^verbatim>\<open>_parallel_gen_map\<close>\<close>

fun scatter_gen :: "extent \<Rightarrow> nat list \<Rightarrow> ind_entry list \<Rightarrow> real list \<Rightarrow> error + real list" where
  "scatter_gen sc [] res gen_gids_all = Inr gen_gids_all"
| "scatter_gen sc (g # gids) (r # res) gen_gids_all =
     (case np_setitem gen_gids_all (get_flat_excl_ind sc g) (entry_values r) of
        Inl e \<Rightarrow> Inl e
      | Inr a \<Rightarrow> scatter_gen sc gids res a)"
| "scatter_gen sc (g # gids) [] gen_gids_all = Inl IndexError"

fun collect_gen ::
  "tech_mapping \<Rightarrow> h5file option \<Rightarrow> string \<Rightarrow> nat list list \<Rightarrow> nat list \<Rightarrow> real list
   \<Rightarrow> error + real list" where
  "collect_gen tm fout res_map_dset chunks [] acc = Inr acc"
| "collect_gen tm fout res_map_dset chunks (i # order) acc =
     (case map_gen_gids (chunks ! i) (tm_exclusions tm) (tm_map_meta tm) fout res_map_dset
             (tm_resolution tm) of
        Inl e \<Rightarrow> Inl e
      | Inr res \<Rightarrow>
          (case scatter_gen (SupplyCurveExtent (tm_exclusions tm) (tm_resolution tm))
                  (chunks ! i) res acc of
             Inl e \<Rightarrow> Inl e
           | Inr acc' \<Rightarrow> collect_gen tm fout res_map_dset chunks order acc'))"

text \<open>
  The two guards come first: the output file and the resource-map dataset must be there.
  The result is the number of tasks submitted and an exception or the index array.
\<close>

definition parallel_gen_map ::
  "tech_mapping \<Rightarrow> h5file option \<Rightarrow> string \<Rightarrow> nat list \<Rightarrow> nat \<times> (error + real list)" where
  "parallel_gen_map tm fout res_map_dset order =
     (case fout of
        None \<Rightarrow> (0, Inl FileInputError)
      | Some f \<Rightarrow>
          if dsets f res_map_dset = None then (0, Inl FileInputError)
          else
            (case gid_chunks (SupplyCurveExtent (tm_exclusions tm) (tm_resolution tm)) of
               Inl e \<Rightarrow> (0, Inl e)
             | Inr chunks \<Rightarrow>
                 (length chunks,
                  collect_gen tm fout res_map_dset chunks order
                    (fst (init_out_arrays (SupplyCurveExtent (tm_exclusions tm) (tm_resolution tm)))))))"

subsection \<open>\<^verbatim>\<open>save_tech_map\<close> and the two entry points\<close>

definition endswith :: "string \<Rightarrow> string \<Rightarrow> bool" where
  "endswith s suf = (length suf \<le> length s \<and> drop (length s - length suf) s = suf)"

definition h5_path :: "string \<Rightarrow> string" where
  "h5_path fpath_out = (if endswith fpath_out ''.h5'' then fpath_out else fpath_out @ ''.h5'')"

definition new_dataset :: "nat \<times> nat \<Rightarrow> real list \<Rightarrow> dataset" where
  "new_dataset shape xs = \<lparr>dshape = shape, ddata = xs, dattr_fpath = None, dattr_dub = None\<rparr>"

text \<open>
  The file that \<^verbatim>\<open>h5py.File(fpath_out, 'w')\<close> and the two \<^verbatim>\<open>create_dataset\<close>
  calls leave: the coordinate datasets and the attribute \<^verbatim>\<open>fpath_excl\<close>.
\<close>

definition coords_file :: "tech_mapping \<Rightarrow> coord list \<Rightarrow> h5file" where
  "coords_file tm coords =
     \<lparr>attrs = [''fpath_excl'' \<mapsto> tm_fpath_excl tm],
      dsets = [''latitude'' \<mapsto> new_dataset (excl_rows (tm_exclusions tm), excl_cols (tm_exclusions tm)) (map fst coords),
               ''longitude'' \<mapsto> new_dataset (excl_rows (tm_exclusions tm), excl_cols (tm_exclusions tm)) (map snd coords)]\<rparr>"

text \<open>
  \<^verbatim>\<open>f[dset][...] = ind.reshape(shape)\<close> on a dataset that is there (its attributes
  stay; a dataset of another shape refuses the array), \<^verbatim>\<open>create_dataset\<close> otherwise.
\<close>

definition write_ind :: "h5file \<Rightarrow> string \<Rightarrow> nat \<times> nat \<Rightarrow> real list \<Rightarrow> error + dataset" where
  "write_ind f dset shape ind =
     (case dsets f dset of
        Some d \<Rightarrow> if dshape d = shape then Inr (d\<lparr>ddata := ind\<rparr>) else Inl TypeError
      | None \<Rightarrow> Inr (new_dataset shape ind))"

text \<open>
  \<^verbatim>\<open>save_tech_map\<close>, for arrays with one entry per pixel (those of
  \<^verbatim>\<open>_init_out_arrays\<close>, so that \<^verbatim>\<open>reshape\<close> succeeds; the chunk layout of the
  datasets is not modelled). The file is opened in append mode, which creates it when it
  is not there. The bound is read last, after the dataset and its attribute
  \<^verbatim>\<open>fpath\<close> are written: when its inference fails the file keeps what was written.
  The result is the file system and an exception or the object and the lines logged.
\<close>

definition save_tech_map ::
  "tech_mapping \<Rightarrow> real list \<Rightarrow> coord list option \<Rightarrow> string \<Rightarrow> string \<Rightarrow> files
   \<Rightarrow> files \<times> (error + (tech_mapping \<times> event list))" where
  "save_tech_map tm ind coords fpath_out dset fs =
     (let p = h5_path fpath_out;
          fs1 = (case fs p of
                   Some f \<Rightarrow> fs
                 | None \<Rightarrow> (case coords of None \<Rightarrow> fs | Some cs \<Rightarrow> fs(p \<mapsto> coords_file tm cs)));
          f = (case fs1 p of None \<Rightarrow> \<lparr>attrs = Map.empty, dsets = Map.empty\<rparr> | Some f \<Rightarrow> f)
      in case write_ind f dset (excl_rows (tm_exclusions tm), excl_cols (tm_exclusions tm)) ind of
           Inl e \<Rightarrow> (fs1(p \<mapsto> f), Inl e)
         | Inr d \<Rightarrow>
             (case distance_upper_bound tm of
                Inl e \<Rightarrow>
                  (fs1(p \<mapsto> f\<lparr>dsets := (dsets f)(dset \<mapsto> d\<lparr>dattr_fpath := Some (tm_fpath_map tm)\<rparr>)\<rparr>),
                   Inl e)
              | Inr (dub, tm', logged) \<Rightarrow>
                  (fs1(p \<mapsto> f\<lparr>dsets := (dsets f)(dset \<mapsto>
                       d\<lparr>dattr_fpath := Some (tm_fpath_map tm), dattr_dub := Some dub\<rparr>)\<rparr>),
                   Inr (tm', logged))))"

text \<open>
  What a run leaves: the file system, the warning of \<^verbatim>\<open>_check_fout\<close>, the lines
  logged, the number of tasks submitted to the executor and the exception that ended the
  run, if any.
\<close>

record run_result =
  r_files :: files
  r_warning :: "warning option"
  r_log :: "event list"
  r_submitted :: nat
  r_error :: "error option"

text \<open>
  \<^verbatim>\<open>run_resource_map\<close>: the constructor (whose only step that can fail is
  \<^verbatim>\<open>_check_fout\<close>), the parallel mapping and the save. The record \<open>tm\<close> holds the
  arguments of the call.
\<close>

definition run_resource_map :: "tech_mapping \<Rightarrow> nat list \<Rightarrow> files \<Rightarrow> run_result" where
  "run_resource_map tm order fs =
     (case check_fout (fs (tm_fpath_out tm)) (tm_fpath_excl tm) (tm_dset tm) of
        (w, Some e) \<Rightarrow>
          \<lparr>r_files = fs, r_warning = w, r_log = [], r_submitted = 0, r_error = Some e\<rparr>
      | (w, None) \<Rightarrow>
          (case parallel_resource_map tm (fs (tm_fpath_out tm)) order of
             (n, Inl e) \<Rightarrow>
               \<lparr>r_files = fs, r_warning = w, r_log = [], r_submitted = n, r_error = Some e\<rparr>
           | (n, Inr (ind, coords, tm', logged)) \<Rightarrow>
               (case save_tech_map tm' ind (Some coords) (tm_fpath_out tm) (tm_dset tm) fs of
                  (fs', Inl e) \<Rightarrow>
                    \<lparr>r_files = fs', r_warning = w, r_log = logged, r_submitted = n, r_error = Some e\<rparr>
                | (fs', Inr (tm'', logged')) \<Rightarrow>
                    \<lparr>r_files = fs', r_warning = w, r_log = logged @ logged', r_submitted = n,
                     r_error = None\<rparr>)))"

text \<open>
  \<^verbatim>\<open>run_gen_map\<close>: \<open>tm_dset\<close> is the dataset to write, \<open>res_map_dset\<close> the resource
  map to read; no coordinates are passed to the save.
\<close>

definition run_gen_map :: "tech_mapping \<Rightarrow> string \<Rightarrow> nat list \<Rightarrow> files \<Rightarrow> run_result" where
  "run_gen_map tm res_map_dset order fs =
     (case check_fout (fs (tm_fpath_out tm)) (tm_fpath_excl tm) (tm_dset tm) of
        (w, Some e) \<Rightarrow>
          \<lparr>r_files = fs, r_warning = w, r_log = [], r_submitted = 0, r_error = Some e\<rparr>
      | (w, None) \<Rightarrow>
          (case parallel_gen_map tm (fs (tm_fpath_out tm)) res_map_dset order of
             (n, Inl e) \<Rightarrow>
               \<lparr>r_files = fs, r_warning = w, r_log = [], r_submitted = n, r_error = Some e\<rparr>
           | (n, Inr ind) \<Rightarrow>
               (case save_tech_map tm ind None (tm_fpath_out tm) (tm_dset tm) fs of
                  (fs', Inl e) \<Rightarrow>
                    \<lparr>r_files = fs', r_warning = w, r_log = [], r_submitted = n, r_error = Some e\<rparr>
                | (fs', Inr (tm', logged)) \<Rightarrow>
                    \<lparr>r_files = fs', r_warning = w, r_log = logged, r_submitted = n, r_error = None\<rparr>)))"

section \<open>Definitions used to state the properties\<close>

subsection \<open>The distance bound\<close>

text \<open>
  The cyclic predecessor of a position in an array of length \<open>n\<close>, and the nonzero gaps
  between every latitude and its cyclic predecessor: what \<^verbatim>\<open>np.roll(lats, 1)\<close>
  pairs up, the first entry with the last.
\<close>

definition cyc_pred :: "nat \<Rightarrow> nat \<Rightarrow> nat" where
  "cyc_pred n i = (i + n - 1) mod n"

definition cyclic_gaps :: "real list \<Rightarrow> real list" where
  "cyclic_gaps lats = map (\<lambda>i. \<bar>lats ! i - lats ! cyc_pred (length lats) i\<bar>) [0..<length lats]"

definition nonzero_cyclic_gaps :: "real list \<Rightarrow> real set" where
  "nonzero_cyclic_gaps lats =
     {g. g \<noteq> 0 \<and> (\<exists>i < length lats. g = \<bar>lats ! i - lats ! cyc_pred (length lats) i\<bar>)}"

text \<open>
  The bound in the words of the specification: the minimum nonzero absolute difference
  between adjacent entries of the latitude array, half its diagonal, five percent more.
\<close>

definition adjacent_gaps :: "real list \<Rightarrow> real list" where
  "adjacent_gaps lats = map (\<lambda>i. \<bar>lats ! Suc i - lats ! i\<bar>) [0..<length lats - 1]"

definition spec_distance_upper_bound :: "real list \<Rightarrow> real" where
  "spec_distance_upper_bound lats =
     1.05 * sqrt 2 * (Min (set (filter (\<lambda>d. d \<noteq> 0) (adjacent_gaps lats))) / 2)"

subsection \<open>Example inputs\<close>

text \<open>
  A mapping request on a raster of one row and three pixels at longitudes 0, 1 and 2,
  with one pixel per chunk, against a meta table; and variations of it.
\<close>

definition line_raster :: raster where
  "line_raster = \<lparr>excl_rows = 1, excl_cols = 3, excl_coord = (\<lambda>r c. (0, real c))\<rparr>"

definition tm_example :: "real option \<Rightarrow> site list \<Rightarrow> tech_mapping" where
  "tm_example dub meta =
     \<lparr>tm_distance_upper_bound = dub, tm_fpath_excl = ''excl.tif'',
      tm_fpath_map = ''map.h5'', tm_fpath_out = ''out.h5'', tm_dset = ''tech_map'',
      tm_resolution = 1, tm_n_cores = 2, tm_exclusions = line_raster, tm_map_meta = meta\<rparr>"

text \<open>Two sites at the same latitude; three sites whose first and last latitudes are close.\<close>

definition tm_same_lat :: tech_mapping where
  "tm_same_lat = tm_example None
     [\<lparr>latitude = 3, longitude = 0, gid = 0\<rparr>, \<lparr>latitude = 3, longitude = 1, gid = 1\<rparr>]"

definition tm_wrap :: tech_mapping where
  "tm_wrap = tm_example None
     [\<lparr>latitude = 0, longitude = 0, gid = 0\<rparr>, \<lparr>latitude = 10, longitude = 0, gid = 1\<rparr>,
      \<lparr>latitude = 1, longitude = 0, gid = 2\<rparr>]"

text \<open>An output file with both coordinate datasets and no attribute \<^verbatim>\<open>fpath_excl\<close>.\<close>

definition file_no_attr :: h5file where
  "file_no_attr =
     \<lparr>attrs = Map.empty,
      dsets = [''latitude'' \<mapsto> new_dataset (1, 3) [0, 0, 0],
               ''longitude'' \<mapsto> new_dataset (1, 3) [0, 1, 2]]\<rparr>"

text \<open>
  An output file built for the example raster that holds a resource map \<^verbatim>\<open>res\<close>;
  a generation meta whose two rows refer to the resource sites 1 and 0.
\<close>

definition res_file :: "real list \<Rightarrow> h5file" where
  "res_file xs =
     \<lparr>attrs = [''fpath_excl'' \<mapsto> ''excl.tif''],
      dsets = [''latitude'' \<mapsto> new_dataset (1, 3) [0, 0, 0],
               ''longitude'' \<mapsto> new_dataset (1, 3) [0, 1, 2],
               ''res'' \<mapsto> new_dataset (1, 3) xs]\<rparr>"

definition gen_meta_example :: "site list" where
  "gen_meta_example =
     [\<lparr>latitude = 0, longitude = 1, gid = 1\<rparr>, \<lparr>latitude = 0, longitude = 0, gid = 0\<rparr>]"

subsection \<open>Pixels, gids and scattering\<close>

text \<open>
  The number of pixels, the gid whose window holds a pixel (given by its flat index), and
  membership in a half-open range.
\<close>

definition n_pixels :: "extent \<Rightarrow> nat" where
  "n_pixels sc = excl_rows (sc_exclusions sc) * excl_cols (sc_exclusions sc)"

definition gid_of :: "extent \<Rightarrow> nat \<Rightarrow> nat" where
  "gid_of sc p =
     (p div excl_cols (sc_exclusions sc) div sc_res sc) * n_chunks (excl_cols (sc_exclusions sc)) (sc_res sc)
     + p mod excl_cols (sc_exclusions sc) div sc_res sc"

definition in_slice :: "slice \<Rightarrow> nat \<Rightarrow> bool" where
  "in_slice sl x = (fst sl \<le> x \<and> x < snd sl)"

text \<open>
  What an assignment \<^verbatim>\<open>arr[idx] = vals\<close> stores at the \<open>k\<close>-th of \<open>n\<close> indices: the
  \<open>k\<close>-th value, or the one value that is broadcast.
\<close>

definition pick :: "'a list \<Rightarrow> nat \<Rightarrow> nat \<Rightarrow> 'a" where
  "pick vals n k = (if length vals = n then vals ! k else hd vals)"

text \<open>
  The scatter of one batch and the collection loop for one output array and any worker:
  the two scatter loops and the two collection loops of the source are instances (lemmas
  \<open>scatter_gen_vals\<close>, \<open>scatter_resource_vals\<close>, \<open>collect_gen_vals\<close> and
  \<open>collect_resource_vals\<close>).
\<close>

fun scatter_vals :: "extent \<Rightarrow> nat list \<Rightarrow> 'a list list \<Rightarrow> 'a list \<Rightarrow> error + 'a list" where
  "scatter_vals sc [] vs acc = Inr acc"
| "scatter_vals sc (g # gids) (v # vs) acc =
     (case np_setitem acc (get_flat_excl_ind sc g) v of
        Inl e \<Rightarrow> Inl e
      | Inr a \<Rightarrow> scatter_vals sc gids vs a)"
| "scatter_vals sc (g # gids) [] acc = Inl IndexError"

fun collect_vals ::
  "extent \<Rightarrow> (nat list \<Rightarrow> error + 'a list list) \<Rightarrow> nat list list \<Rightarrow> nat list \<Rightarrow> 'a list
   \<Rightarrow> error + 'a list" where
  "collect_vals sc W chunks [] acc = Inr acc"
| "collect_vals sc W chunks (i # order) acc =
     (case W (chunks ! i) of
        Inl e \<Rightarrow> Inl e
      | Inr vs \<Rightarrow>
          (case scatter_vals sc (chunks ! i) vs acc of
             Inl e \<Rightarrow> Inl e
           | Inr acc' \<Rightarrow> collect_vals sc W chunks order acc'))"

text \<open>When the scatter of a batch into an array of length \<open>n\<close> raises nothing.\<close>

definition scatter_ok :: "extent \<Rightarrow> nat list \<Rightarrow> 'a list list \<Rightarrow> nat \<Rightarrow> bool" where
  "scatter_ok sc gids vs n =
     (length gids \<le> length vs
      \<and> (\<forall>j < length gids.
            (\<forall>i \<in> set (get_flat_excl_ind sc (gids ! j)). i < n)
            \<and> (length (vs ! j) = length (get_flat_excl_ind sc (gids ! j)) \<or> length (vs ! j) = 1)))"

text \<open>Batches that share no gid and hold gids of the extent only.\<close>

definition chunks_ok :: "extent \<Rightarrow> nat list list \<Rightarrow> bool" where
  "chunks_ok sc chunks = (distinct (concat chunks) \<and> (\<forall>g \<in> set (concat chunks). g < sc_len sc))"

text \<open>
  The extent of a mapping object, and the three workers as functions of the batch alone:
  the value lists that the generation worker returns, and the index value lists and the
  coordinate lists that the resource worker returns.
\<close>

definition tm_sc :: "tech_mapping \<Rightarrow> extent" where
  "tm_sc tm = SupplyCurveExtent (tm_exclusions tm) (tm_resolution tm)"

definition gen_worker :: "tech_mapping \<Rightarrow> h5file option \<Rightarrow> string \<Rightarrow> nat list \<Rightarrow> error + real list list" where
  "gen_worker tm fout res_map_dset gids =
     map_sum id (map entry_values)
       (map_gen_gids gids (tm_exclusions tm) (tm_map_meta tm) fout res_map_dset (tm_resolution tm))"

definition ind_worker :: "tech_mapping \<Rightarrow> h5file option \<Rightarrow> real \<Rightarrow> nat list \<Rightarrow> error + real list list" where
  "ind_worker tm fout dub gids =
     map_sum id (\<lambda>r. map entry_values (fst r))
       (map_resource_gids gids (tm_exclusions tm) (tm_map_meta tm) fout dub (tm_resolution tm) (1 / 10))"

definition coords_worker :: "tech_mapping \<Rightarrow> h5file option \<Rightarrow> real \<Rightarrow> nat list \<Rightarrow> error + coord list list" where
  "coords_worker tm fout dub gids =
     map_sum id snd
       (map_resource_gids gids (tm_exclusions tm) (tm_map_meta tm) fout dub (tm_resolution tm) (1 / 10))"

text \<open>
  A completion order of \<open>n\<close> futures: \<^verbatim>\<open>cf.as_completed\<close> yields every future once.
\<close>

definition completion_order :: "nat list \<Rightarrow> nat \<Rightarrow> bool" where
  "completion_order order n = (distinct order \<and> set order = {..<n})"

text \<open>Two resource sites, at the first two pixels of the example raster.\<close>

definition two_sites :: "site list" where
  "two_sites = [\<lparr>latitude = 0, longitude = 0, gid = 0\<rparr>, \<lparr>latitude = 0, longitude = 1, gid = 1\<rparr>]"

subsection \<open>Pixel coordinates, candidate sites and the stored files\<close>

text \<open>
  The cached coordinate datasets of an output file, where there are any, have the shape
  of the exclusion raster.
\<close>

definition cached_coords_match :: "raster \<Rightarrow> h5file option \<Rightarrow> bool" where
  "cached_coords_match excl fout =
     (case fout of
        None \<Rightarrow> True
      | Some f \<Rightarrow>
          (case dsets f ''latitude'' of None \<Rightarrow> True | Some d \<Rightarrow> dshape d = (excl_rows excl, excl_cols excl))
          \<and> (case dsets f ''longitude'' of None \<Rightarrow> True | Some d \<Rightarrow> dshape d = (excl_rows excl, excl_cols excl)))"

text \<open>
  The coordinates that a mapping uses for the pixel with a flat index: the cached ones
  when the output file exists, the raw ones of the exclusion meta otherwise.
\<close>

definition pixel_coord :: "raster \<Rightarrow> h5file option \<Rightarrow> nat \<Rightarrow> coord" where
  "pixel_coord excl fout p =
     (case fout of
        None \<Rightarrow> excl_coord excl (p div excl_cols excl) (p mod excl_cols excl)
      | Some f \<Rightarrow>
          (case dsets f ''latitude'' of
             None \<Rightarrow> (0, 0)
           | Some la \<Rightarrow>
               (case dsets f ''longitude'' of
                  None \<Rightarrow> (0, 0)
                | Some lo \<Rightarrow> (ddata la ! p, ddata lo ! p))))"

text \<open>
  The candidate sites of a batch (the positions that the mask of the batch's widened
  bounding box selects), the distance between a pixel and a site, and the bound that the
  object resolves to.
\<close>

definition candidates :: "tech_mapping \<Rightarrow> h5file option \<Rightarrow> nat list \<Rightarrow> nat list" where
  "candidates tm fout chunk =
     (case unpack_coords chunk (tm_sc tm) fout of
        Inr (co, Some lat_range, Some lon_range) \<Rightarrow> mask_ind (tm_map_meta tm) lat_range lon_range (1 / 10)
      | _ \<Rightarrow> [])"

definition site_distance :: "tech_mapping \<Rightarrow> h5file option \<Rightarrow> nat \<Rightarrow> nat \<Rightarrow> real" where
  "site_distance tm fout p j =
     euclid (site_coord (tm_map_meta tm ! j)) (pixel_coord (tm_exclusions tm) fout p)"

definition resolved_bound :: "tech_mapping \<Rightarrow> real option" where
  "resolved_bound tm = (case distance_upper_bound tm of Inl e \<Rightarrow> None | Inr (d, _) \<Rightarrow> Some d)"

text \<open>
  The raster's shape, and the file that \<^verbatim>\<open>save_tech_map\<close> writes the index dataset
  into: the one that is there, or the new one (with the coordinate datasets when
  coordinates are passed).
\<close>

definition raster_shape :: "tech_mapping \<Rightarrow> nat \<times> nat" where
  "raster_shape tm = (excl_rows (tm_exclusions tm), excl_cols (tm_exclusions tm))"

definition base_file :: "tech_mapping \<Rightarrow> coord list option \<Rightarrow> h5file option \<Rightarrow> h5file" where
  "base_file tm coords fout =
     (case fout of
        Some f \<Rightarrow> f
      | None \<Rightarrow> (case coords of None \<Rightarrow> \<lparr>attrs = Map.empty, dsets = Map.empty\<rparr> | Some cs \<Rightarrow> coords_file tm cs))"

text \<open>
  The rows that one resource id contributes to the left merge on the \<^verbatim>\<open>gid\<close> column: the
  positions of the generation meta that hold it, or one missing value.
\<close>

definition gid_matches :: "site list \<Rightarrow> real \<Rightarrow> nat list" where
  "gid_matches gen_meta r = filter (\<lambda>i. real (gid (gen_meta ! i)) = r) [0..<length gen_meta]"

definition merge_row :: "site list \<Rightarrow> real \<Rightarrow> nat option list" where
  "merge_row gen_meta r = (case gid_matches gen_meta r of [] \<Rightarrow> [None] | i # js \<Rightarrow> map Some (i # js))"


section \<open>Properties\<close>

subsection \<open>The check of a pre-existing output file\<close>

lemma check_fout_no_attr:
  "attrs f ''fpath_excl'' = None \<Longrightarrow> check_fout (Some f) fpath_excl dset = (None, Some KeyError)"
  by (simp add: check_fout_def)

text \<open>
  C5 (the claim: a pre-existing output file that has the latitude and longitude datasets
  and lacks the attribute \<^verbatim>\<open>fpath_excl\<close> gets a warning only, and validation raises
  no exception). On the code this fails: for such a file \<^verbatim>\<open>_check_fout\<close> prepares
  the warning and then reads the missing attribute, so it issues no warning and raises
  \<^verbatim>\<open>KeyError\<close>; a resource run on it ends with that exception, submits no task and
  leaves the file system as it was.
\<close>

theorem check_fout_missing_attr_raises:
  "check_fout (Some file_no_attr) ''excl.tif'' ''tech_map'' = (None, Some KeyError)
   \<and> dsets file_no_attr ''latitude'' \<noteq> None \<and> dsets file_no_attr ''longitude'' \<noteq> None
   \<and> r_error (run_resource_map (tm_example (Some (1 / 2)) []) [0, 1] [''out.h5'' \<mapsto> file_no_attr])
       = Some KeyError
   \<and> r_warning (run_resource_map (tm_example (Some (1 / 2)) []) [0, 1] [''out.h5'' \<mapsto> file_no_attr])
       = None"
  by (simp add: check_fout_def file_no_attr_def run_resource_map_def tm_example_def)

subsection \<open>The inferred distance bound\<close>

lemma roll1_nth: "i < length xs \<Longrightarrow> roll1 xs ! i = xs ! cyc_pred (length xs) i"
  by (cases i) (auto simp: roll1_def last_conv_nth nth_butlast cyc_pred_def)

lemma length_roll1: "length (roll1 xs) = length xs"
  by (auto simp: roll1_def)

lemma gaps_roll1: "map2 (\<lambda>a b. \<bar>a - b\<bar>) lats (roll1 lats) = cyclic_gaps lats"
  by (rule nth_equalityI) (simp_all add: cyclic_gaps_def length_roll1 roll1_nth)

lemma lat_dists_cyclic: "lat_dists lats = filter (\<lambda>d. d \<noteq> 0) (cyclic_gaps lats)"
  by (simp add: lat_dists_def gaps_roll1)

lemma set_lat_dists: "set (lat_dists lats) = nonzero_cyclic_gaps lats"
  by (auto simp: lat_dists_cyclic cyclic_gaps_def nonzero_cyclic_gaps_def)

lemma fold_min_Min: "fold min ys (x::real) = Min (set (x # ys))"
proof (induction ys arbitrary: x)
  case Nil
  show ?case by simp
next
  case (Cons y ys)
  have "fold min (y # ys) x = Min (set (min y x # ys))"
    using Cons.IH [of "min y x"] by simp
  also have "\<dots> = Min (set (x # y # ys))"
    by (cases "ys = []") (simp_all add: min.commute min.left_commute min.assoc)
  finally show ?case .
qed

lemma fold_max_Max: "fold max ys (x::real) = Max (set (x # ys))"
proof (induction ys arbitrary: x)
  case Nil
  show ?case by simp
next
  case (Cons y ys)
  have "fold max (y # ys) x = Max (set (max y x # ys))"
    using Cons.IH [of "max y x"] by simp
  also have "\<dots> = Max (set (x # y # ys))"
    by (cases "ys = []") (simp_all add: max.commute max.left_commute max.assoc)
  finally show ?case .
qed

lemma lat_dists_empty:
  "(lat_dists lats = []) = (\<forall>i < length lats. lats ! i = lats ! cyc_pred (length lats) i)"
  by (auto simp: lat_dists_cyclic cyclic_gaps_def filter_empty_conv)

lemma lat_dists_empty_meta:
  "(lat_dists (map latitude ms) = []) =
     (\<forall>i < length ms. latitude (ms ! i) = latitude (ms ! cyc_pred (length ms) i))"
proof -
  have "cyc_pred (length ms) i < length ms" if "i < length ms" for i
    using that by (cases ms) (simp_all add: cyc_pred_def)
  then show ?thesis
    by (auto simp: lat_dists_empty)
qed

lemma distance_upper_bound_None:
  "tm_distance_upper_bound tm = None \<Longrightarrow>
   distance_upper_bound tm =
     (if lat_dists (map latitude (tm_map_meta tm)) = [] then Inl ValueError
      else let d = 1.05 * sqrt 2 * (Min (set (lat_dists (map latitude (tm_map_meta tm)))) / 2)
           in Inr (d, tm\<lparr>tm_distance_upper_bound := Some d\<rparr>, [InferredBound d]))"
  by (cases "lat_dists (map latitude (tm_map_meta tm))")
     (simp_all add: distance_upper_bound_def np_min_def fold_min_Min Let_def del: set_simps)

lemma distance_upper_bound_Some:
  "tm_distance_upper_bound tm = Some d \<Longrightarrow> distance_upper_bound tm = Inr (d, tm, [])"
  by (simp add: distance_upper_bound_def)

text \<open>
  C9, as amended (the gaps are those between cyclically adjacent latitudes: every entry
  and the one before it, the first entry and the last). When no bound was supplied and
  some cyclic gap is nonzero, the access returns \<open>1.05 * sqrt 2 * (g / 2)\<close> for the
  minimum \<open>g\<close> of the nonzero cyclic gaps, stores that bound in the object and logs it.
\<close>

theorem distance_upper_bound_inferred:
  assumes "tm_distance_upper_bound tm = None"
    and "nonzero_cyclic_gaps (map latitude (tm_map_meta tm)) \<noteq> {}"
  shows "distance_upper_bound tm =
           Inr (1.05 * sqrt 2 * (Min (nonzero_cyclic_gaps (map latitude (tm_map_meta tm))) / 2),
                tm\<lparr>tm_distance_upper_bound :=
                     Some (1.05 * sqrt 2 * (Min (nonzero_cyclic_gaps (map latitude (tm_map_meta tm))) / 2))\<rparr>,
                [InferredBound (1.05 * sqrt 2 * (Min (nonzero_cyclic_gaps (map latitude (tm_map_meta tm))) / 2))])"
proof -
  from assms(2) have "lat_dists (map latitude (tm_map_meta tm)) \<noteq> []"
    by (metis set_lat_dists set_empty)
  then show ?thesis
    using assms(1) by (simp add: distance_upper_bound_None Let_def set_lat_dists)
qed

lemma gaps_wrap: "nonzero_cyclic_gaps (map latitude (tm_map_meta tm_wrap)) = {1, 10, 9}"
  unfolding set_lat_dists [symmetric]
  by (simp add: tm_wrap_def tm_example_def lat_dists_def roll1_def)

theorem distance_upper_bound_inferred_witness:
  "tm_distance_upper_bound tm_wrap = None
   \<and> map_sum id fst (distance_upper_bound tm_wrap) = Inr (1.05 * sqrt 2 * (1 / 2))
   \<and> map_sum id (snd \<circ> snd) (distance_upper_bound tm_wrap)
       = Inr [InferredBound (1.05 * sqrt 2 * (1 / 2))]"
  using distance_upper_bound_inferred [of tm_wrap]
  by (simp add: gaps_wrap) (simp add: tm_wrap_def tm_example_def)

text \<open>
  C9 as the claim words it fails: on the latitudes 0, 10, 1 the adjacent entries differ
  by 10 and 9, so the claimed bound is \<open>1.05 * sqrt 2 * (9 / 2)\<close>, and the code, which
  also compares the first entry with the last, returns \<open>1.05 * sqrt 2 * (1 / 2)\<close>.
\<close>

theorem distance_upper_bound_adjacent_counterexample:
  "map_sum id fst (distance_upper_bound tm_wrap)
     \<noteq> Inr (spec_distance_upper_bound (map latitude (tm_map_meta tm_wrap)))"
proof -
  have "adjacent_gaps [0, 10, 1] = [10, 9]"
    by (simp add: adjacent_gaps_def upt_rec [of 0] upt_rec [of "Suc 0"])
  then have "spec_distance_upper_bound [0, 10, 1] = 1.05 * sqrt 2 * (9 / 2)"
    by (simp add: spec_distance_upper_bound_def)
  moreover have "map_sum id fst (distance_upper_bound tm_wrap) = Inr (1.05 * sqrt 2 * (1 / 2))"
    by (simp add: distance_upper_bound_def tm_wrap_def tm_example_def lat_dists_def roll1_def
        np_min_def Let_def)
  ultimately show ?thesis
    by (simp add: tm_wrap_def tm_example_def)
qed

text \<open>
  C10: when no bound was supplied, the access fails with \<^verbatim>\<open>ValueError\<close> exactly
  when every latitude equals its cyclic predecessor (so for a single site, or for sites
  that share one latitude), and returns a bound exactly when some latitude differs from
  its cyclic predecessor.
\<close>

theorem distance_upper_bound_defined_iff:
  "tm_distance_upper_bound tm = None \<Longrightarrow>
     ((distance_upper_bound tm = Inl ValueError) =
        (\<forall>i < length (tm_map_meta tm).
           latitude (tm_map_meta tm ! i) =
           latitude (tm_map_meta tm ! cyc_pred (length (tm_map_meta tm)) i))) \<and>
     ((\<exists>r. distance_upper_bound tm = Inr r) =
        (\<exists>i < length (tm_map_meta tm).
           latitude (tm_map_meta tm ! i) \<noteq>
           latitude (tm_map_meta tm ! cyc_pred (length (tm_map_meta tm)) i)))"
proof (cases "lat_dists (map latitude (tm_map_meta tm)) = []")
  case True
  assume "tm_distance_upper_bound tm = None"
  with True show ?thesis
    using lat_dists_empty_meta [of "tm_map_meta tm"]
    by (simp add: distance_upper_bound_None)
next
  case False
  assume none: "tm_distance_upper_bound tm = None"
  from False none have "\<exists>r. distance_upper_bound tm = Inr r"
    unfolding distance_upper_bound_None [OF none] Let_def by (simp only: if_False) blast
  moreover from this have "distance_upper_bound tm \<noteq> Inl ValueError"
    by auto
  ultimately show ?thesis
    using False lat_dists_empty_meta [of "tm_map_meta tm"] by simp
qed

theorem distance_upper_bound_defined_iff_witness:
  "tm_distance_upper_bound tm_same_lat = None \<and> distance_upper_bound tm_same_lat = Inl ValueError"
  using distance_upper_bound_defined_iff [of tm_same_lat]
  by (simp add: tm_same_lat_def tm_example_def cyc_pred_def All_less_Suc numeral_2_eq_2)

subsection \<open>The generation worker's result list\<close>

lemma map_gen_gids_length:
  "map_gen_gids gids excl gen_meta fout res_map_dset resolution = Inr res \<Longrightarrow>
   length res = 2 * length gids \<and> drop (length gids) res = map (\<lambda>_. Scalar (- 1)) gids"
  by (auto simp: map_gen_gids_def split: if_splits option.splits)

lemma slices_line:
  "get_excl_slices (SupplyCurveExtent line_raster (Suc 0)) g =
     ((g div 3, min (Suc (g div 3)) 1), (g mod 3, min (Suc (g mod 3)) 3))"
  by (simp add: get_excl_slices_def SupplyCurveExtent_def line_raster_def n_chunks_def
      chunk_slice_def)

text \<open>
  C4 (the claim: for a non-empty batch whose loop appends a result for every gid, the
  \<^verbatim>\<open>else\<close> branch cannot run and the returned list has exactly one entry per gid).
  On the code this fails: the \<^verbatim>\<open>else\<close> belongs to a \<^verbatim>\<open>for\<close> without
  \<^verbatim>\<open>break\<close>, so it runs after every loop; for the batch of the gids 0 and 1 the
  worker returns four entries, the two arrays and two scalars \<open>-1\<close>.
\<close>

theorem map_gen_gids_else_branch_runs:
  "map_gen_gids [0, 1] line_raster gen_meta_example (Some (res_file [0, 1, - 1])) ''res'' 1
     = Inr [Array [1], Array [0], Scalar (- 1), Scalar (- 1)]"
  by (simp add: map_gen_gids_def res_file_def slices_line new_dataset_def read_window_def
      clip_def window_cells_def merge_left_def fill_nan_def gen_meta_example_def
      upt_rec [of 0] upt_rec [of "Suc 0"] upt_rec [of 1])

subsection \<open>The guards of the generation pass\<close>

text \<open>
  C7: when the output file is not there, or it is there without the resource-map
  dataset, \<^verbatim>\<open>run_gen_map\<close> ends with an exception (\<^verbatim>\<open>FileInputError\<close>, or the
  \<^verbatim>\<open>KeyError\<close> of \<^verbatim>\<open>_check_fout\<close> on a file without the attribute
  \<^verbatim>\<open>fpath_excl\<close>), no task has been submitted to the executor and the file system is
  as it was.
\<close>

theorem run_gen_map_missing_input:
  assumes "fs (tm_fpath_out tm) = None
           \<or> (\<exists>f. fs (tm_fpath_out tm) = Some f \<and> dsets f res_map_dset = None)"
  shows "(r_error (run_gen_map tm res_map_dset order fs) = Some FileInputError
          \<or> r_error (run_gen_map tm res_map_dset order fs) = Some KeyError)
         \<and> (fs (tm_fpath_out tm) = None \<longrightarrow>
              r_error (run_gen_map tm res_map_dset order fs) = Some FileInputError)
         \<and> r_submitted (run_gen_map tm res_map_dset order fs) = 0
         \<and> r_files (run_gen_map tm res_map_dset order fs) = fs"
  using assms
  by (auto simp: run_gen_map_def check_fout_def parallel_gen_map_def Let_def
      split: option.splits prod.splits)

theorem run_gen_map_missing_input_witness:
  "r_error (run_gen_map (tm_example (Some (1 / 2)) gen_meta_example) ''res'' [0, 1] Map.empty)
     = Some FileInputError
   \<and> r_submitted (run_gen_map (tm_example (Some (1 / 2)) gen_meta_example) ''res'' [0, 1] Map.empty) = 0
   \<and> r_files (run_gen_map (tm_example (Some (1 / 2)) gen_meta_example) ''res'' [0, 1] Map.empty)
     = Map.empty"
  using run_gen_map_missing_input
    [of Map.empty "tm_example (Some (1 / 2)) gen_meta_example" "''res''" "[0, 1]"]
  by simp

subsection \<open>Array assignment, flat indices and the scatter loops\<close>

lemma fold_upd_length: "length (fold (\<lambda>(i, v) a. a[i := v]) ivs arr) = length arr"
  by (induction ivs arbitrary: arr) (auto split: prod.splits)

lemma fold_upd_other:
  "p \<notin> fst ` set ivs \<Longrightarrow> fold (\<lambda>(i, v) a. a[i := v]) ivs arr ! p = arr ! p"
  by (induction ivs arbitrary: arr) (auto split: prod.splits)

lemma fold_upd_hit:
  "distinct (map fst ivs) \<Longrightarrow> k < length ivs \<Longrightarrow> fst (ivs ! k) < length arr \<Longrightarrow>
   fold (\<lambda>(i, v) a. a[i := v]) ivs arr ! fst (ivs ! k) = snd (ivs ! k)"
proof (induction ivs arbitrary: arr k)
  case Nil
  then show ?case by simp
next
  case (Cons iv ivs)
  obtain i v where iv: "iv = (i, v)" by (cases iv)
  show ?case
  proof (cases k)
    case 0
    with Cons.prems iv show ?thesis
      by (simp add: fold_upd_other)
  next
    case (Suc k')
    with Cons.prems iv have "fold (\<lambda>(i, v) a. a[i := v]) ivs (arr[i := v]) ! fst (ivs ! k') = snd (ivs ! k')"
      by (intro Cons.IH) simp_all
    with Suc iv show ?thesis by simp
  qed
qed

lemma fold_bcast: "fold (\<lambda>i a. a[i := v]) idx arr = fold (\<lambda>(i, v) a. a[i := v]) (map (\<lambda>i. (i, v)) idx) arr"
  by (induction idx arbitrary: arr) auto

lemma np_setitem_Inr:
  assumes "np_setitem arr idx vals = Inr arr'" and "distinct idx"
  shows "length arr' = length arr"
    and "p \<notin> set idx \<Longrightarrow> arr' ! p = arr ! p"
    and "k < length idx \<Longrightarrow> arr' ! (idx ! k) = pick vals (length idx) k"
proof -
  from assms(1) have inr: "\<forall>i \<in> set idx. i < length arr"
    by (auto simp: np_setitem_def split: if_splits)
  show "length arr' = length arr"
    using assms(1) by (auto simp: np_setitem_def fold_upd_length fold_bcast split: if_splits)
  show "arr' ! p = arr ! p" if "p \<notin> set idx"
  proof -
    have "p \<notin> fst ` set (zip idx vals)"
      using that by (auto dest: set_zip_leftD)
    moreover have "p \<notin> fst ` set (map (\<lambda>i. (i, hd vals)) idx)"
      using that by auto
    ultimately show ?thesis
      using assms(1) by (auto simp: np_setitem_def fold_upd_other fold_bcast split: if_splits)
  qed
  show "arr' ! (idx ! k) = pick vals (length idx) k" if k: "k < length idx"
  proof (cases "length vals = length idx")
    case True
    with assms(1) have a: "arr' = fold (\<lambda>(i, v) a. a[i := v]) (zip idx vals) arr"
      by (auto simp: np_setitem_def split: if_splits)
    have "fold (\<lambda>(i, v) a. a[i := v]) (zip idx vals) arr ! fst (zip idx vals ! k) = snd (zip idx vals ! k)"
      using True k assms(2) inr by (intro fold_upd_hit) simp_all
    with True k a show ?thesis by (simp add: pick_def)
  next
    case False
    with assms(1) have a: "arr' = fold (\<lambda>(i, v) a. a[i := v]) (map (\<lambda>i. (i, hd vals)) idx) arr"
      by (auto simp: np_setitem_def fold_bcast split: if_splits)
    have "fold (\<lambda>(i, v) a. a[i := v]) (map (\<lambda>i. (i, hd vals)) idx) arr ! fst (map (\<lambda>i. (i, hd vals)) idx ! k)
          = snd (map (\<lambda>i. (i, hd vals)) idx ! k)"
      using k assms(2) inr by (intro fold_upd_hit) (simp_all add: comp_def)
    with False k a show ?thesis by (simp add: pick_def)
  qed
qed

lemma np_setitem_ok_iff:
  "(\<exists>arr'. np_setitem arr idx vals = Inr arr') =
     ((\<forall>i \<in> set idx. i < length arr) \<and> (length vals = length idx \<or> length vals = 1))"
  unfolding np_setitem_def by (auto simp: not_le [symmetric] simp del: not_le not_less)

lemma div_lt_n_chunks: "0 < res \<Longrightarrow> c < n \<Longrightarrow> c div res < n_chunks n res"
proof -
  assume res: "0 < res" and c: "c < n"
  have "c div res \<le> (n - 1) div res"
    using c by (intro div_le_mono) simp
  also have "(n - 1) div res < (n - 1 + res) div res"
    using res by (simp add: div_add_self2)
  also have "n - 1 + res = n + res - 1"
    using c by simp
  finally show ?thesis by (simp add: n_chunks_def)
qed

lemma in_chunk_slice:
  "0 < res \<Longrightarrow> in_slice (chunk_slice res n i) x = (x < n \<and> x div res = i)"
proof -
  assume res: "0 < res"
  have "(i * res \<le> x \<and> x < (i + 1) * res) = (x div res = i)"
  proof
    assume a: "i * res \<le> x \<and> x < (i + 1) * res"
    then have "i \<le> x div res" 
      using res by (simp add: less_eq_div_iff_mult_less_eq)
    moreover from a have "x div res < i + 1"
      using res by (simp add: div_less_iff_less_mult)
    ultimately show "x div res = i" by simp
  next
    assume "x div res = i"
    moreover have "x = x div res * res + x mod res" by simp
    moreover have "x mod res < res" using res by simp
    ultimately show "i * res \<le> x \<and> x < (i + 1) * res"
      by (metis add.commute le_add2 mult.commute mult_Suc nat_add_left_cancel_less Suc_eq_plus1)
  qed
  then show ?thesis
    by (auto simp: chunk_slice_def in_slice_def)
qed

lemma set_window_cells: "set (window_cells rs cs) = {(r, c). in_slice rs r \<and> in_slice cs c}"
  by (auto simp: window_cells_def in_slice_def)

lemma flat_mem:
  assumes res: "0 < sc_res sc" and g: "g < sc_len sc"
  shows "(p \<in> set (get_flat_excl_ind sc g)) = (p < n_pixels sc \<and> gid_of sc p = g)"
proof -
  define rows where "rows = excl_rows (sc_exclusions sc)"
  define cols where "cols = excl_cols (sc_exclusions sc)"
  define res where "res = sc_res sc"
  define nc where "nc = n_chunks cols res"
  have res0: "0 < res" using res by (simp add: res_def)
  have g': "g < n_chunks rows res * nc"
    using g by (simp add: sc_len_def rows_def cols_def res_def nc_def)
  then have nc0: "0 < nc" by (cases nc) simp_all
  have mem: "(p \<in> set (get_flat_excl_ind sc g)) =
          (\<exists>r c. p = r * cols + c \<and> (r < rows \<and> r div res = g div nc) \<and> (c < cols \<and> c div res = g mod nc))"
    by (auto simp: get_flat_excl_ind_def get_excl_slices_def Let_def set_window_cells
        in_chunk_slice [OF res0] rows_def [symmetric] cols_def [symmetric] res_def [symmetric]
        nc_def [symmetric] image_iff)
  show ?thesis
  proof
    assume "p \<in> set (get_flat_excl_ind sc g)"
    then obtain r c where p: "p = r * cols + c" and r: "r < rows" "r div res = g div nc"
      and c: "c < cols" "c div res = g mod nc"
      using mem by auto
    have "p div cols = r" "p mod cols = c"
      using p c(1) by simp_all
    moreover have "p < rows * cols"
    proof -
      have "p < (r + 1) * cols" using p c(1) by simp
      also have "\<dots> \<le> rows * cols" using r(1) by (intro mult_le_mono1) simp
      finally show ?thesis .
    qed
    ultimately show "p < n_pixels sc \<and> gid_of sc p = g"
      using r(2) c(2)
      by (simp add: n_pixels_def gid_of_def rows_def [symmetric] cols_def [symmetric]
          res_def [symmetric] nc_def [symmetric])
  next
    assume a: "p < n_pixels sc \<and> gid_of sc p = g"
    then have plt: "p < rows * cols" by (simp add: n_pixels_def rows_def cols_def)
    then have cols0: "0 < cols" by (cases cols) simp_all
    from a have gid: "g = (p div cols div res) * nc + p mod cols div res"
      by (simp add: gid_of_def rows_def cols_def res_def nc_def)
    have c: "p mod cols < cols" using cols0 by simp
    have r: "p div cols < rows" using plt cols0
      by (simp add: div_less_iff_less_mult)
    have cc: "p mod cols div res < nc"
      unfolding nc_def by (rule div_lt_n_chunks [OF res0 c])
    have "g div nc = p div cols div res" "g mod nc = p mod cols div res"
      using gid cc by simp_all
    then have "p = (p div cols) * cols + p mod cols \<and> (p div cols < rows \<and> p div cols div res = g div nc)
          \<and> (p mod cols < cols \<and> p mod cols div res = g mod nc)"
      using r c by simp
    then show "p \<in> set (get_flat_excl_ind sc g)"
      unfolding mem by blast
  qed
qed

lemma gid_of_lt:
  assumes res: "0 < sc_res sc" and p: "p < n_pixels sc"
  shows "gid_of sc p < sc_len sc"
proof -
  define rows where "rows = excl_rows (sc_exclusions sc)"
  define cols where "cols = excl_cols (sc_exclusions sc)"
  define res where "res = sc_res sc"
  have res0: "0 < res" using res by (simp add: res_def)
  have plt: "p < rows * cols" using p by (simp add: n_pixels_def rows_def cols_def)
  then have cols0: "0 < cols" by (cases cols) simp_all
  have c: "p mod cols div res < n_chunks cols res"
    using cols0 res0 by (intro div_lt_n_chunks) simp_all
  have r: "p div cols div res < n_chunks rows res"
    using plt cols0 res0 by (intro div_lt_n_chunks) (simp_all add: div_less_iff_less_mult)
  have "(p div cols div res) * n_chunks cols res + p mod cols div res
          < (p div cols div res + 1) * n_chunks cols res"
    using c by simp
  also have "\<dots> \<le> n_chunks rows res * n_chunks cols res"
    using r by (intro mult_le_mono1) simp
  finally show ?thesis
    by (simp add: gid_of_def sc_len_def rows_def cols_def res_def)
qed


lemma flat_distinct: "distinct (get_flat_excl_ind sc g)"
proof -
  have "inj_on (\<lambda>(r, c). r * excl_cols (sc_exclusions sc) + c) {(r, c). c < excl_cols (sc_exclusions sc)}"
  proof (rule inj_onI, clarify)
    fix r c r' c'
    assume c: "c < excl_cols (sc_exclusions sc)" and c': "c' < excl_cols (sc_exclusions sc)"
      and eq: "r * excl_cols (sc_exclusions sc) + c = r' * excl_cols (sc_exclusions sc) + c'"
    from eq have "(r * excl_cols (sc_exclusions sc) + c) div excl_cols (sc_exclusions sc)
        = (r' * excl_cols (sc_exclusions sc) + c') div excl_cols (sc_exclusions sc)"
      and "(r * excl_cols (sc_exclusions sc) + c) mod excl_cols (sc_exclusions sc)
        = (r' * excl_cols (sc_exclusions sc) + c') mod excl_cols (sc_exclusions sc)"
      by simp_all
    with c c' show "r = r' \<and> c = c'" by simp
  qed
  moreover have "set (case get_excl_slices sc g of (rs, cs) \<Rightarrow> window_cells rs cs)
       \<subseteq> {(r, c). c < excl_cols (sc_exclusions sc)}"
    by (auto simp: get_excl_slices_def Let_def set_window_cells chunk_slice_def in_slice_def)
  moreover have "distinct (case get_excl_slices sc g of (rs, cs) \<Rightarrow> window_cells rs cs)"
    by (auto simp: window_cells_def distinct_product split: prod.splits)
  ultimately show ?thesis
    by (auto simp: get_flat_excl_ind_def distinct_map split: prod.splits intro: inj_on_subset)
qed

lemma scatter_gen_vals: "scatter_gen sc gids res acc = scatter_vals sc gids (map entry_values res) acc"
  by (induction sc gids res acc rule: scatter_gen.induct) (auto split: sum.splits)

lemma scatter_resource_vals:
  "(scatter_resource sc gids inds coords (a, c) = Inr (a', c')) =
     (scatter_vals sc gids (map entry_values inds) a = Inr a' \<and> scatter_vals sc gids coords c = Inr c')"
proof (induction gids arbitrary: inds coords a c)
  case Nil
  show ?case by auto
next
  case (Cons g gids)
  show ?case
  proof (cases inds)
    case Nil
    then show ?thesis by simp
  next
    case i: (Cons r inds')
    show ?thesis
    proof (cases coords)
      case Nil
      with i show ?thesis by simp
    next
      case (Cons co coords')
      with i Cons.IH show ?thesis
        by (auto split: sum.splits)
    qed
  qed
qed

lemma scatter_vals_ok:
  "(\<exists>acc'. scatter_vals sc gids vs acc = Inr acc') = scatter_ok sc gids vs (length acc)"
proof (induction sc gids vs acc rule: scatter_vals.induct)
  case (1 sc vs acc)
  show ?case by (simp add: scatter_ok_def)
next
  case (2 sc g gids v vs acc)
  show ?case
  proof (cases "np_setitem acc (get_flat_excl_ind sc g) v")
    case (Inl e)
    then have "\<not> ((\<forall>i \<in> set (get_flat_excl_ind sc g). i < length acc)
        \<and> (length v = length (get_flat_excl_ind sc g) \<or> length v = 1))"
      using np_setitem_ok_iff [of acc "get_flat_excl_ind sc g" v] by auto
    then have "\<not> scatter_ok sc (g # gids) (v # vs) (length acc)"
      unfolding scatter_ok_def by (auto simp: All_less_Suc2)
    with Inl show ?thesis by simp
  next
    case (Inr a)
    then have ok: "(\<forall>i \<in> set (get_flat_excl_ind sc g). i < length acc)
        \<and> (length v = length (get_flat_excl_ind sc g) \<or> length v = 1)"
      using np_setitem_ok_iff [of acc "get_flat_excl_ind sc g" v] by auto
    have len: "length a = length acc"
      using np_setitem_Inr(1) [OF Inr flat_distinct] .
    have "scatter_ok sc (g # gids) (v # vs) (length acc) = scatter_ok sc gids vs (length acc)"
      using ok unfolding scatter_ok_def by (auto simp: All_less_Suc2)
    with Inr 2 [OF Inr] len show ?thesis by simp
  qed
next
  case (3 sc g gids acc)
  show ?case by (simp add: scatter_ok_def)
qed

lemma scatter_vals_Inr_aux:
  "scatter_vals sc gids vs acc = Inr acc' \<Longrightarrow> distinct gids \<Longrightarrow>
   (\<forall>g \<in> set gids. \<forall>g' \<in> set gids. g \<noteq> g' \<longrightarrow>
       set (get_flat_excl_ind sc g) \<inter> set (get_flat_excl_ind sc g') = {}) \<Longrightarrow>
   length acc' = length acc
   \<and> (\<forall>p. (\<forall>g \<in> set gids. p \<notin> set (get_flat_excl_ind sc g)) \<longrightarrow> acc' ! p = acc ! p)
   \<and> (\<forall>j < length gids. \<forall>k < length (get_flat_excl_ind sc (gids ! j)).
         acc' ! (get_flat_excl_ind sc (gids ! j) ! k)
           = pick (vs ! j) (length (get_flat_excl_ind sc (gids ! j))) k)"
proof (induction gids arbitrary: vs acc)
  case Nil
  then show ?case by simp
next
  case (Cons g gids)
  from Cons.prems(1) obtain v vs' where vs: "vs = v # vs'"
    by (cases vs) simp_all
  from Cons.prems(1) vs obtain a where a: "np_setitem acc (get_flat_excl_ind sc g) v = Inr a"
    and rest: "scatter_vals sc gids vs' a = Inr acc'"
    by (auto split: sum.splits)
  note set1 = np_setitem_Inr [OF a flat_distinct]
  have IH: "length acc' = length a
     \<and> (\<forall>p. (\<forall>g \<in> set gids. p \<notin> set (get_flat_excl_ind sc g)) \<longrightarrow> acc' ! p = a ! p)
     \<and> (\<forall>j < length gids. \<forall>k < length (get_flat_excl_ind sc (gids ! j)).
           acc' ! (get_flat_excl_ind sc (gids ! j) ! k)
             = pick (vs' ! j) (length (get_flat_excl_ind sc (gids ! j))) k)"
    using Cons.prems(2,3) by (intro Cons.IH [OF rest]) auto
  have len: "length acc' = length acc"
    using IH set1(1) by simp
  have other: "acc' ! p = acc ! p" if "\<forall>g' \<in> set (g # gids). p \<notin> set (get_flat_excl_ind sc g')" for p
    using that IH set1(2) [of p] by simp
  have hit: "acc' ! (get_flat_excl_ind sc ((g # gids) ! j) ! k)
      = pick (vs ! j) (length (get_flat_excl_ind sc ((g # gids) ! j))) k"
    if j: "j < length (g # gids)" and k: "k < length (get_flat_excl_ind sc ((g # gids) ! j))" for j k
  proof (cases j)
    case 0
    have "get_flat_excl_ind sc g ! k \<in> set (get_flat_excl_ind sc g)"
      using k 0 by simp
    moreover have "set (get_flat_excl_ind sc g) \<inter> set (get_flat_excl_ind sc g') = {}"
      if "g' \<in> set gids" for g'
      using that Cons.prems(2,3) by auto
    ultimately have "\<forall>g' \<in> set gids. get_flat_excl_ind sc g ! k \<notin> set (get_flat_excl_ind sc g')"
      by blast
    then have "acc' ! (get_flat_excl_ind sc g ! k) = a ! (get_flat_excl_ind sc g ! k)"
      using IH by blast
    with set1(3) [of k] k 0 vs show ?thesis by simp
  next
    case (Suc j')
    with j k IH vs show ?thesis by simp
  qed
  from len other hit show ?case by blast
qed

lemma scatter_vals_length:
  "scatter_vals sc gids vs acc = Inr acc' \<Longrightarrow> length acc' = length acc"
proof (induction sc gids vs acc rule: scatter_vals.induct)
  case (2 sc g gids v vs acc)
  from "2.prems" obtain a where a: "np_setitem acc (get_flat_excl_ind sc g) v = Inr a"
    and rest: "scatter_vals sc gids vs a = Inr acc'"
    by (auto split: sum.splits)
  from "2.IH" [OF a rest] np_setitem_Inr(1) [OF a flat_distinct] show ?case by simp
qed simp_all

lemma collect_vals_ok:
  "(\<exists>acc'. collect_vals sc W chunks order acc = Inr acc') =
     (\<forall>i \<in> set order. \<exists>vs. W (chunks ! i) = Inr vs \<and> scatter_ok sc (chunks ! i) vs (length acc))"
proof (induction order arbitrary: acc)
  case Nil
  show ?case by simp
next
  case (Cons i order)
  show ?case
  proof (cases "W (chunks ! i)")
    case (Inl e)
    then show ?thesis by simp
  next
    case (Inr vs)
    show ?thesis
    proof (cases "scatter_vals sc (chunks ! i) vs acc")
      case (Inl e)
      then have "\<not> scatter_ok sc (chunks ! i) vs (length acc)"
        using scatter_vals_ok [of sc "chunks ! i" vs acc] by simp
      with Inl Inr show ?thesis by simp
    next
      case scat: (Inr a)
      then have ok: "scatter_ok sc (chunks ! i) vs (length acc)"
        using scatter_vals_ok [of sc "chunks ! i" vs acc] by auto
      have "length a = length acc"
        using scat by (rule scatter_vals_length)
      with Cons.IH [of a] Inr scat ok show ?thesis by simp
    qed
  qed
qed

lemma chunks_ok_distinct: "chunks_ok sc chunks \<Longrightarrow> i < length chunks \<Longrightarrow> distinct (chunks ! i)"
  by (auto simp: chunks_ok_def distinct_concat_iff)

lemma chunks_ok_lt: "chunks_ok sc chunks \<Longrightarrow> i < length chunks \<Longrightarrow> g \<in> set (chunks ! i) \<Longrightarrow> g < sc_len sc"
  by (auto simp: chunks_ok_def)

lemma distinct_concat_nth_disjoint:
  "distinct (concat xss) \<Longrightarrow> i < length xss \<Longrightarrow> j < length xss \<Longrightarrow> i \<noteq> j \<Longrightarrow>
   set (xss ! i) \<inter> set (xss ! j) = {}"
proof (induction xss arbitrary: i j)
  case Nil
  then show ?case by simp
next
  case (Cons xs xss)
  show ?case
  proof (cases i)
    case 0
    with Cons.prems obtain j' where "j = Suc j'" "j' < length xss" by (cases j) auto
    with 0 Cons.prems(1) show ?thesis by fastforce
  next
    case (Suc i')
    show ?thesis
    proof (cases j)
      case 0
      with Suc Cons.prems show ?thesis by fastforce
    next
      case j: (Suc j')
      with Suc Cons.prems Cons.IH [of i' j'] show ?thesis by simp
    qed
  qed
qed

lemma chunks_ok_disjoint:
  "chunks_ok sc chunks \<Longrightarrow> i < length chunks \<Longrightarrow> j < length chunks \<Longrightarrow> i \<noteq> j \<Longrightarrow>
   set (chunks ! i) \<inter> set (chunks ! j) = {}"
  by (simp add: chunks_ok_def distinct_concat_nth_disjoint)

lemma flat_disjoint:
  "0 < sc_res sc \<Longrightarrow> g < sc_len sc \<Longrightarrow> g' < sc_len sc \<Longrightarrow> g \<noteq> g' \<Longrightarrow>
   set (get_flat_excl_ind sc g) \<inter> set (get_flat_excl_ind sc g') = {}"
  by (auto simp: flat_mem)

lemma scatter_vals_chunk:
  assumes "scatter_vals sc (chunks ! i) vs acc = Inr acc'"
    and "0 < sc_res sc" and "chunks_ok sc chunks" and "i < length chunks"
  shows "length acc' = length acc
   \<and> (\<forall>p. (\<forall>g \<in> set (chunks ! i). p \<notin> set (get_flat_excl_ind sc g)) \<longrightarrow> acc' ! p = acc ! p)
   \<and> (\<forall>j < length (chunks ! i). \<forall>k < length (get_flat_excl_ind sc (chunks ! i ! j)).
         acc' ! (get_flat_excl_ind sc (chunks ! i ! j) ! k)
           = pick (vs ! j) (length (get_flat_excl_ind sc (chunks ! i ! j))) k)"
proof (rule scatter_vals_Inr_aux [OF assms(1)])
  show "distinct (chunks ! i)"
    using assms by (simp add: chunks_ok_distinct)
  show "\<forall>g \<in> set (chunks ! i). \<forall>g' \<in> set (chunks ! i). g \<noteq> g' \<longrightarrow>
       set (get_flat_excl_ind sc g) \<inter> set (get_flat_excl_ind sc g') = {}"
  proof (intro ballI impI)
    fix g g' assume "g \<in> set (chunks ! i)" "g' \<in> set (chunks ! i)" "g \<noteq> g'"
    then show "set (get_flat_excl_ind sc g) \<inter> set (get_flat_excl_ind sc g') = {}"
      using chunks_ok_lt [OF assms(3,4)] by (intro flat_disjoint [OF assms(2)]) simp_all
  qed
qed

lemma collect_vals_Inr:
  assumes "collect_vals sc W chunks order acc = Inr acc'"
    and "0 < sc_res sc" and "chunks_ok sc chunks" and "\<forall>i \<in> set order. i < length chunks"
  shows "length acc' = length acc
   \<and> (\<forall>p. (\<forall>i \<in> set order. \<forall>g \<in> set (chunks ! i). p \<notin> set (get_flat_excl_ind sc g))
         \<longrightarrow> acc' ! p = acc ! p)
   \<and> (\<forall>i \<in> set order. \<exists>vs. W (chunks ! i) = Inr vs
         \<and> (\<forall>j < length (chunks ! i). \<forall>k < length (get_flat_excl_ind sc (chunks ! i ! j)).
               acc' ! (get_flat_excl_ind sc (chunks ! i ! j) ! k)
                 = pick (vs ! j) (length (get_flat_excl_ind sc (chunks ! i ! j))) k))"
  using assms(1,4)
proof (induction order arbitrary: acc)
  case Nil
  then show ?case by simp
next
  case (Cons i order)
  from Cons.prems(1) obtain vs a where W: "W (chunks ! i) = Inr vs"
    and scat: "scatter_vals sc (chunks ! i) vs acc = Inr a"
    and rest: "collect_vals sc W chunks order a = Inr acc'"
    by (auto split: sum.splits)
  have i: "i < length chunks" using Cons.prems(2) by simp
  note chunk = scatter_vals_chunk [OF scat assms(2,3) i]
  have IH: "length acc' = length a
   \<and> (\<forall>p. (\<forall>i \<in> set order. \<forall>g \<in> set (chunks ! i). p \<notin> set (get_flat_excl_ind sc g))
         \<longrightarrow> acc' ! p = a ! p)
   \<and> (\<forall>i \<in> set order. \<exists>vs. W (chunks ! i) = Inr vs
         \<and> (\<forall>j < length (chunks ! i). \<forall>k < length (get_flat_excl_ind sc (chunks ! i ! j)).
               acc' ! (get_flat_excl_ind sc (chunks ! i ! j) ! k)
                 = pick (vs ! j) (length (get_flat_excl_ind sc (chunks ! i ! j))) k))"
    using Cons.prems(2) by (intro Cons.IH [OF rest]) simp
  have len: "length acc' = length acc" using IH chunk by simp
  have other: "acc' ! p = acc ! p"
    if "\<forall>i' \<in> set (i # order). \<forall>g \<in> set (chunks ! i'). p \<notin> set (get_flat_excl_ind sc g)" for p
    using that IH chunk by simp
  have hit: "\<exists>vs. W (chunks ! i') = Inr vs
         \<and> (\<forall>j < length (chunks ! i'). \<forall>k < length (get_flat_excl_ind sc (chunks ! i' ! j)).
               acc' ! (get_flat_excl_ind sc (chunks ! i' ! j) ! k)
                 = pick (vs ! j) (length (get_flat_excl_ind sc (chunks ! i' ! j))) k)"
    if i': "i' \<in> set (i # order)" for i'
  proof (cases "i' \<in> set order")
    case True
    with IH show ?thesis by blast
  next
    case False
    with i' have eq: "i' = i" by simp
    have "acc' ! (get_flat_excl_ind sc (chunks ! i ! j) ! k)
                 = pick (vs ! j) (length (get_flat_excl_ind sc (chunks ! i ! j))) k"
      if j: "j < length (chunks ! i)" and k: "k < length (get_flat_excl_ind sc (chunks ! i ! j))" for j k
    proof -
      let ?p = "get_flat_excl_ind sc (chunks ! i ! j) ! k"
      have g: "chunks ! i ! j \<in> set (chunks ! i)" using j by simp
      have glt: "chunks ! i ! j < sc_len sc" using chunks_ok_lt [OF assms(3) i g] .
      have pin: "?p \<in> set (get_flat_excl_ind sc (chunks ! i ! j))" using k by simp
      have "?p \<notin> set (get_flat_excl_ind sc g')" if i'': "i'' \<in> set order" and g': "g' \<in> set (chunks ! i'')" for i'' g'
      proof -
        have i''lt: "i'' < length chunks" using Cons.prems(2) i'' by simp
        have "i'' \<noteq> i" using False eq i'' by auto
        then have "set (chunks ! i'') \<inter> set (chunks ! i) = {}"
          using chunks_ok_disjoint [OF assms(3) i''lt i] by simp
        with g g' have ne: "chunks ! i ! j \<noteq> g'" by auto
        have "g' < sc_len sc" using chunks_ok_lt [OF assms(3) i''lt g'] .
        with flat_disjoint [OF assms(2) glt this ne] pin show ?thesis by auto
      qed
      then have "acc' ! ?p = a ! ?p" using IH by blast
      with chunk j k show ?thesis by simp
    qed
    with W eq show ?thesis by blast
  qed
  from len other hit show ?case by blast
qed

lemma collect_vals_order_independent:
  assumes r1: "collect_vals sc W chunks order1 acc = Inr acc1"
    and "0 < sc_res sc" and "chunks_ok sc chunks"
    and "\<forall>i \<in> set order1. i < length chunks" and "set order2 = set order1"
  shows "collect_vals sc W chunks order2 acc = Inr acc1"
proof -
  have "\<exists>acc2. collect_vals sc W chunks order2 acc = Inr acc2"
    using r1 assms(5) collect_vals_ok [of sc W chunks order1 acc] collect_vals_ok [of sc W chunks order2 acc]
    by auto
  then obtain acc2 where r2: "collect_vals sc W chunks order2 acc = Inr acc2" ..
  note c1 = collect_vals_Inr [OF r1 assms(2,3,4)]
  have "\<forall>i \<in> set order2. i < length chunks" using assms(4,5) by simp
  note c2 = collect_vals_Inr [OF r2 assms(2,3) this]
  have "acc2 = acc1"
  proof (rule nth_equalityI)
    show "length acc2 = length acc1" using c1 c2 by simp
  next
    fix p assume "p < length acc2"
    show "acc2 ! p = acc1 ! p"
    proof (cases "\<forall>i \<in> set order1. \<forall>g \<in> set (chunks ! i). p \<notin> set (get_flat_excl_ind sc g)")
      case True
      then have "acc1 ! p = acc ! p" using c1 by blast
      moreover from True assms(5) have "acc2 ! p = acc ! p" using c2 by blast
      ultimately show ?thesis by simp
    next
      case False
      then obtain i g where i: "i \<in> set order1" and g: "g \<in> set (chunks ! i)"
        and p: "p \<in> set (get_flat_excl_ind sc g)" by blast
      from g obtain j where j: "j < length (chunks ! i)" "chunks ! i ! j = g"
        by (auto simp: in_set_conv_nth)
      from p obtain k where k: "k < length (get_flat_excl_ind sc g)" "get_flat_excl_ind sc g ! k = p"
        by (auto simp: in_set_conv_nth)
      from c1 i obtain vs1 where v1: "W (chunks ! i) = Inr vs1"
        "\<forall>j < length (chunks ! i). \<forall>k < length (get_flat_excl_ind sc (chunks ! i ! j)).
               acc1 ! (get_flat_excl_ind sc (chunks ! i ! j) ! k)
                 = pick (vs1 ! j) (length (get_flat_excl_ind sc (chunks ! i ! j))) k"
        by blast
      from c2 i assms(5) obtain vs2 where v2: "W (chunks ! i) = Inr vs2"
        "\<forall>j < length (chunks ! i). \<forall>k < length (get_flat_excl_ind sc (chunks ! i ! j)).
               acc2 ! (get_flat_excl_ind sc (chunks ! i ! j) ! k)
                 = pick (vs2 ! j) (length (get_flat_excl_ind sc (chunks ! i ! j))) k"
        by blast
      from v1(1) v2(1) have "vs1 = vs2" by simp
      with v1(2) v2(2) j k show ?thesis by metis
    qed
  qed
  with r2 show ?thesis by simp
qed

subsection \<open>The batches and the collection loops\<close>

lemma concat_split_sizes:
  "sum_list ns = length xs \<Longrightarrow> concat (split_sizes xs ns) = xs"
proof (induction ns arbitrary: xs)
  case Nil
  then show ?case by simp
next
  case (Cons n ns)
  then have "sum_list ns = length (drop n xs)" by simp
  with Cons.IH [of "drop n xs"] show ?case by simp
qed

lemma split_sizes_nonempty:
  "sum_list ns = length xs \<Longrightarrow> \<forall>n \<in> set ns. 0 < n \<Longrightarrow> \<forall>c \<in> set (split_sizes xs ns). c \<noteq> []"
proof (induction ns arbitrary: xs)
  case Nil
  then show ?case by simp
next
  case (Cons n ns)
  then have "sum_list ns = length (drop n xs)" by simp
  moreover from Cons.prems have "0 < n" "n \<le> length xs" by simp_all
  then have "take n xs \<noteq> []" by auto
  ultimately show ?case using Cons.IH [of "drop n xs"] Cons.prems(2) by simp
qed

lemma length_split_sizes: "length (split_sizes xs ns) = length ns"
  by (induction ns arbitrary: xs) simp_all

lemma array_split_Inr:
  assumes "array_split xs k = Inr chunks"
  shows "concat chunks = xs" and "length chunks = k" and "0 < k"
    and "k \<le> length xs \<Longrightarrow> \<forall>c \<in> set chunks. c \<noteq> []"
proof -
  let ?n = "length xs"
  let ?ns = "replicate (?n mod k) (?n div k + 1) @ replicate (k - ?n mod k) (?n div k)"
  from assms have k: "0 < k" and c: "chunks = split_sizes xs ?ns"
    by (auto simp: array_split_def split: if_splits)
  have "sum_list ?ns = (?n mod k) * (?n div k + 1) + (k - ?n mod k) * (?n div k)"
    by (simp add: sum_list_replicate)
  also have "\<dots> = ?n mod k + (?n mod k + (k - ?n mod k)) * (?n div k)"
    by (simp add: algebra_simps)
  also have "?n mod k + (k - ?n mod k) = k"
    using k by (simp add: less_imp_le)
  finally have sum: "sum_list ?ns = ?n"
    by (simp add: mult.commute)
  show "concat chunks = xs" using c sum by (simp add: concat_split_sizes)
  show "length chunks = k" using c k by (simp add: length_split_sizes less_imp_le)
  show "0 < k" by (rule k)
  show "\<forall>c \<in> set chunks. c \<noteq> []" if "k \<le> length xs"
  proof -
    have "0 < ?n div k" using that k by (simp add: div_greater_zero_iff)
    then have pos: "\<forall>n \<in> set ?ns. 0 < n" by auto
    show ?thesis unfolding c by (rule split_sizes_nonempty [OF sum pos])
  qed
qed

lemma gid_chunks_Inr:
  assumes "gid_chunks sc = Inr chunks"
  shows "concat chunks = [0..<sc_len sc]" and "chunks_ok sc chunks" and "chunks \<noteq> []"
    and "\<forall>c \<in> set chunks. c \<noteq> []" and "0 < sc_len sc"
proof -
  note a = array_split_Inr [OF assms [unfolded gid_chunks_def]]
  show c: "concat chunks = [0..<sc_len sc]" using a(1) by simp
  then show "chunks_ok sc chunks" by (simp add: chunks_ok_def)
  show "chunks \<noteq> []" using a(2,3) by auto
  from a(3) show pos: "0 < sc_len sc" by (cases "sc_len sc") simp_all
  then have "(sc_len sc + 1) div 2 \<le> length [0..<sc_len sc]" by simp
  then show "\<forall>c \<in> set chunks. c \<noteq> []" by (rule a(4))
qed

lemma gid_chunks_ok_iff: "(\<exists>chunks. gid_chunks sc = Inr chunks) = (0 < sc_len sc)"
  by (auto simp: gid_chunks_def array_split_def)

lemma collect_gen_vals:
  "collect_gen tm fout res_map_dset chunks order acc
     = collect_vals (tm_sc tm) (gen_worker tm fout res_map_dset) chunks order acc"
  by (induction order arbitrary: acc)
     (auto simp: gen_worker_def tm_sc_def scatter_gen_vals split: sum.splits)

lemma collect_resource_vals:
  "(collect_resource tm fout dub chunks order (a, c) = Inr (a', c')) =
     (collect_vals (tm_sc tm) (ind_worker tm fout dub) chunks order a = Inr a'
      \<and> collect_vals (tm_sc tm) (coords_worker tm fout dub) chunks order c = Inr c')"
proof (induction order arbitrary: a c)
  case Nil
  show ?case by auto
next
  case (Cons i order)
  show ?case
  proof (cases "map_resource_gids (chunks ! i) (tm_exclusions tm) (tm_map_meta tm) fout dub (tm_resolution tm) (1 / 10)")
    case (Inl e)
    then show ?thesis by (simp add: ind_worker_def coords_worker_def)
  next
    case (Inr r)
    obtain inds coords where r: "r = (inds, coords)" by (cases r)
    show ?thesis
    proof (cases "scatter_resource (tm_sc tm) (chunks ! i) inds coords (a, c)")
      case (Inl e)
      then have "\<not> (\<exists>a1 c1. scatter_vals (tm_sc tm) (chunks ! i) (map entry_values inds) a = Inr a1
               \<and> scatter_vals (tm_sc tm) (chunks ! i) coords c = Inr c1)"
        using scatter_resource_vals [of "tm_sc tm" "chunks ! i" inds coords a c] by auto
      with Inl Inr r show ?thesis
        by (auto simp: ind_worker_def coords_worker_def tm_sc_def split: sum.splits)
    next
      case scat: (Inr acc1)
      obtain a1 c1 where acc1: "acc1 = (a1, c1)" by (cases acc1)
      with scat have "scatter_vals (tm_sc tm) (chunks ! i) (map entry_values inds) a = Inr a1"
        "scatter_vals (tm_sc tm) (chunks ! i) coords c = Inr c1"
        using scatter_resource_vals [of "tm_sc tm" "chunks ! i" inds coords a c a1 c1] by simp_all
      with scat Inr r acc1 Cons.IH [of a1 c1] show ?thesis
        by (simp add: ind_worker_def coords_worker_def tm_sc_def)
    qed
  qed
qed

subsection \<open>The example run, evaluated\<close>

lemma chunks_line: "gid_chunks (SupplyCurveExtent line_raster (Suc 0)) = Inr [[0, Suc 0], [2]]"
  by code_simp

lemma flat_line:
  "get_flat_excl_ind (SupplyCurveExtent line_raster (Suc 0)) 0 = [0]"
  "get_flat_excl_ind (SupplyCurveExtent line_raster (Suc 0)) (Suc 0) = [Suc 0]"
  "get_flat_excl_ind (SupplyCurveExtent line_raster (Suc 0)) 2 = [2]"
  by code_simp+

lemma unpack01: "unpack_coords [0, Suc 0] (SupplyCurveExtent line_raster (Suc 0)) None = Inr ([[(0, 0)], [(0, 1)]], Some (0, 0), Some (0, 1))"
  by code_simp

lemma unpack2: "unpack_coords [2] (SupplyCurveExtent line_raster (Suc 0)) None = Inr ([[(0, 2)]], Some (0, 0), Some (2, 2))"
  by code_simp

lemma mask01: "mask_ind two_sites (0, 0) (0, 1) (1 / 10) = [0, Suc 0]"
  by code_simp

lemma mask2: "mask_ind two_sites (0, 0) (2, 2) (1 / 10) = []"
  by code_simp

lemma query01:
  "query_gid two_sites 0 [Suc 0] (1 / 2) [(0, 0)] = [0]"
  "query_gid two_sites 0 [Suc 0] (1 / 2) [(0, 1)] = [1]"
  by (simp_all add: query_gid_def two_sites_def site_coord_def euclid_def)

lemma worker2: "map_resource_gids [2] line_raster two_sites None (1 / 2) (Suc 0) (1 / 10)
    = Inr ([Scalar (- 1)], [[(0, 2)]])"
  by (simp add: map_resource_gids_def unpack2 mask2)

lemma worker01: "map_resource_gids [0, Suc 0] line_raster two_sites None (1 / 2) (Suc 0) (1 / 10)
    = Inr ([Array [0], Array [1]], [[(0, 0)], [(0, 1)]])"
  by (simp add: map_resource_gids_def unpack01 mask01 query01
      upt_rec [of 0] upt_rec [of "Suc 0"])

lemma tm_example_simps:
  "tm_distance_upper_bound (tm_example d m) = d"
  "tm_fpath_excl (tm_example d m) = ''excl.tif''"
  "tm_fpath_map (tm_example d m) = ''map.h5''"
  "tm_fpath_out (tm_example d m) = ''out.h5''"
  "tm_dset (tm_example d m) = ''tech_map''"
  "tm_resolution (tm_example d m) = Suc 0"
  "tm_exclusions (tm_example d m) = line_raster"
  "tm_map_meta (tm_example d m) = m"
  by (simp_all add: tm_example_def)

lemma init_line:
  "init_out_arrays (SupplyCurveExtent line_raster (Suc 0)) = ([- 1, - 1, - 1], [(0, 0), (0, 0), (0, 0)])"
  by code_simp

lemma par: "parallel_resource_map (tm_example (Some (1 / 2)) two_sites) None [1, 0]
   = (2, Inr ([0, 1, - 1], [(0, 0), (0, 1), (0, 2)], tm_example (Some (1 / 2)) two_sites, []))"
  by (simp add: parallel_resource_map_def tm_example_simps chunks_line distance_upper_bound_def
     worker01 worker2 init_line flat_line np_setitem_def)


subsection \<open>The resource worker and the nearest-neighbour query\<close>

lemma unpack_coords_loop_Inr:
  "unpack_coords_loop sc fout gids (acc, la, lo) = Inr (co, la', lo') \<Longrightarrow>
   \<exists>new. co = acc @ new \<and> length new = length gids
     \<and> (\<forall>j < length gids. gid_emeta sc fout (gids ! j) = Inr (new ! j) \<and> new ! j \<noteq> [])
     \<and> (gids \<noteq> [] \<longrightarrow> la' \<noteq> None \<and> lo' \<noteq> None)"
proof (induction gids arbitrary: acc la lo)
  case Nil
  then show ?case by simp
next
  case (Cons g gids)
  from Cons.prems obtain em where em: "gid_emeta sc fout g = Inr em"
    by (auto split: sum.splits)
  from Cons.prems em have ne: "em \<noteq> []"
    by (auto simp: np_min_def)
  then obtain x xs where x: "em = x # xs" by (cases em) simp_all
  define la1 where "la1 = widen la (fold min (map fst xs) (fst x)) (fold max (map fst xs) (fst x))"
  define lo1 where "lo1 = widen lo (fold min (map snd xs) (snd x)) (fold max (map snd xs) (snd x))"
  from Cons.prems em x
  have rest: "unpack_coords_loop sc fout gids (acc @ [em], Some la1, Some lo1) = Inr (co, la', lo')"
    by (simp add: np_min_def np_max_def la1_def lo1_def)
  from Cons.IH [OF rest] obtain new where new: "co = (acc @ [em]) @ new" "length new = length gids"
    "\<forall>j < length gids. gid_emeta sc fout (gids ! j) = Inr (new ! j) \<and> new ! j \<noteq> []"
    "gids \<noteq> [] \<longrightarrow> la' \<noteq> None \<and> lo' \<noteq> None"
    by blast
  have "la' \<noteq> None \<and> lo' \<noteq> None"
  proof (cases gids)
    case Nil
    with rest show ?thesis by auto
  next
    case (Cons a list)
    with new(4) show ?thesis by simp
  qed
  moreover have "\<forall>j < length (g # gids). gid_emeta sc fout ((g # gids) ! j) = Inr ((em # new) ! j) \<and> (em # new) ! j \<noteq> []"
    using em ne new(3) by (auto simp: nth_Cons split: nat.splits)
  ultimately show ?case
    using new(1,2) by (intro exI [of _ "em # new"]) simp
qed

lemma unpack_coords_Inr:
  assumes "unpack_coords gids sc fout = Inr (co, la, lo)"
  shows "length co = length gids"
    and "\<And>j. j < length gids \<Longrightarrow> gid_emeta sc fout (gids ! j) = Inr (co ! j)"
    and "gids \<noteq> [] \<Longrightarrow> la \<noteq> None \<and> lo \<noteq> None"
  using unpack_coords_loop_Inr [OF assms [unfolded unpack_coords_def]] by auto

lemma map_resource_gids_Inr:
  assumes "map_resource_gids gids excl res_meta fout dub resolution margin = Inr (inds, coords)"
  shows "\<exists>la lo. unpack_coords gids (SupplyCurveExtent excl resolution) fout = Inr (coords, Some la, Some lo)
     \<and> gids \<noteq> []
     \<and> (case mask_ind res_meta la lo margin of
           [] \<Rightarrow> inds = map (\<lambda>_. Scalar (- 1)) gids
         | m # ms \<Rightarrow> inds = map (\<lambda>c. Array (query_gid res_meta m ms dub c)) coords)"
proof -
  from assms obtain la lo where u: "unpack_coords gids (SupplyCurveExtent excl resolution) fout = Inr (coords, Some la, Some lo)"
    and ne: "gids \<noteq> []"
    by (auto simp: map_resource_gids_def split: if_splits sum.splits option.splits list.splits)
  have len: "length coords = length gids" using unpack_coords_Inr(1) [OF u] .
  have "map (\<lambda>i. Array (query_gid res_meta m ms dub (coords ! i))) [0..<length gids]
      = map (\<lambda>c. Array (query_gid res_meta m ms dub c)) coords" for m ms
    using len by (intro nth_equalityI) simp_all
  with assms u ne show ?thesis
    by (auto simp: map_resource_gids_def split: list.splits)
qed

lemma map_resource_gids_lengths:
  assumes "map_resource_gids gids excl res_meta fout dub resolution margin = Inr (inds, coords)"
  shows "length inds = length gids" and "length coords = length gids"
proof -
  from map_resource_gids_Inr [OF assms] obtain la lo where
    u: "unpack_coords gids (SupplyCurveExtent excl resolution) fout = Inr (coords, Some la, Some lo)"
    and c: "(case mask_ind res_meta la lo margin of
           [] \<Rightarrow> inds = map (\<lambda>_. Scalar (- 1)) gids
         | m # ms \<Rightarrow> inds = map (\<lambda>c. Array (query_gid res_meta m ms dub c)) coords)"
    by blast
  show "length coords = length gids" using unpack_coords_Inr(1) [OF u] .
  then show "length inds = length gids"
    using c by (cases "mask_ind res_meta la lo margin") simp_all
qed

lemma map_resource_gids_no_site:
  assumes "unpack_coords gids (SupplyCurveExtent excl resolution) fout = Inr (coords, Some la, Some lo)"
    and "gids \<noteq> []" and "mask_ind res_meta la lo margin = []"
  shows "map_resource_gids gids excl res_meta fout dub resolution margin
           = Inr (map (\<lambda>_. Scalar (- 1)) gids, coords)"
  using assms by (simp add: map_resource_gids_def)

lemma pick_single: "k < n \<Longrightarrow> pick [v] n k = v"
  by (cases "n = 1") (simp_all add: pick_def)

lemma query_nearest:
  "query p ps q = (d, i) \<Longrightarrow>
   i < length (p # ps) \<and> d = euclid ((p # ps) ! i) q
   \<and> (\<forall>k < length (p # ps). d \<le> euclid ((p # ps) ! k) q)"
proof (induction ps arbitrary: p d i)
  case Nil
  then show ?case by auto
next
  case (Cons p' ps)
  obtain d' i' where q: "query p' ps q = (d', i')" by (cases "query p' ps q")
  note IH = Cons.IH [OF q]
  from IH have least: "\<forall>k < length (p' # ps). d' \<le> euclid ((p' # ps) ! k) q" by blast
  show ?case
  proof (cases "euclid p q \<le> d'")
    case True
    with Cons.prems q have di: "d = euclid p q" "i = 0" by simp_all
    have "d \<le> euclid ((p # p' # ps) ! k) q" if "k < length (p # p' # ps)" for k
    proof (cases k)
      case 0
      with di show ?thesis by simp
    next
      case (Suc k')
      with that least have "d' \<le> euclid ((p' # ps) ! k') q" by simp
      with True di Suc show ?thesis by simp
    qed
    with di show ?thesis by simp
  next
    case False
    with Cons.prems q have di: "d = d'" "i = Suc i'" by simp_all
    have "d \<le> euclid ((p # p' # ps) ! k) q" if "k < length (p # p' # ps)" for k
    proof (cases k)
      case 0
      with di False show ?thesis by simp
    next
      case (Suc k')
      with that least have "d' \<le> euclid ((p' # ps) ! k') q" by simp
      with di Suc show ?thesis by simp
    qed
    with di IH show ?thesis by simp
  qed
qed

subsection \<open>Determinism of the assembled arrays\<close>

lemma collect_resource_n_cores:
  "collect_resource (tm\<lparr>tm_n_cores := k\<rparr>) fout dub chunks order acc
     = collect_resource tm fout dub chunks order acc"
  by (induction order arbitrary: acc) (auto split: sum.splits)

lemma distance_upper_bound_n_cores:
  "distance_upper_bound (tm\<lparr>tm_n_cores := k\<rparr>)
     = map_sum id (\<lambda>(d, t, l). (d, t\<lparr>tm_n_cores := k\<rparr>, l)) (distance_upper_bound tm)"
  by (auto simp: distance_upper_bound_def Let_def split: option.splits sum.splits)

lemma distance_upper_bound_n_cores_Inr:
  "distance_upper_bound (tm\<lparr>tm_n_cores := k\<rparr>) = Inr (d, t1, l) \<Longrightarrow>
   \<exists>t. distance_upper_bound tm = Inr (d, t, l)"
  by (cases "distance_upper_bound tm") (auto simp: distance_upper_bound_n_cores)

lemma tm_sc_res: "sc_res (tm_sc tm) = tm_resolution tm"
  by (simp add: tm_sc_def SupplyCurveExtent_def)

lemma collect_resource_order_independent:
  assumes r1: "collect_resource tm fout dub chunks order1 acc = Inr r"
    and res: "0 < tm_resolution tm" and ok: "chunks_ok (tm_sc tm) chunks"
    and o1: "\<forall>i \<in> set order1. i < length chunks" and o2: "set order2 = set order1"
  shows "collect_resource tm fout dub chunks order2 acc = Inr r"
proof -
  obtain a c where acc: "acc = (a, c)" by (cases acc)
  obtain a' c' where r: "r = (a', c')" by (cases r)
  have res': "0 < sc_res (tm_sc tm)" using res by (simp add: tm_sc_res)
  from r1 have "collect_vals (tm_sc tm) (ind_worker tm fout dub) chunks order1 a = Inr a'"
    and "collect_vals (tm_sc tm) (coords_worker tm fout dub) chunks order1 c = Inr c'"
    by (simp_all add: acc r collect_resource_vals)
  then have "collect_vals (tm_sc tm) (ind_worker tm fout dub) chunks order2 a = Inr a'"
    and "collect_vals (tm_sc tm) (coords_worker tm fout dub) chunks order2 c = Inr c'"
    using collect_vals_order_independent [OF _ res' ok o1 o2] by blast+
  then show ?thesis
    by (simp add: acc r collect_resource_vals)
qed

text \<open>
  C8: the assembled arrays do not depend on the number of workers or on the order in
  which the batches complete. For the batches of the extent, two completion orders
  (each naming every batch once) and two worker counts, a parallel mapping that returns
  the index and coordinate arrays under the first order and count returns the same two
  arrays, and the same log lines, under the second.
\<close>

theorem parallel_resource_map_deterministic:
  assumes "0 < tm_resolution tm"
    and "gid_chunks (tm_sc tm) = Inr chunks"
    and "completion_order order1 (length chunks)"
    and "completion_order order2 (length chunks)"
    and "snd (parallel_resource_map (tm\<lparr>tm_n_cores := k1\<rparr>) fout order1) = Inr (ind, coords, tm1, lg)"
  shows "\<exists>tm2. snd (parallel_resource_map (tm\<lparr>tm_n_cores := k2\<rparr>) fout order2)
                 = Inr (ind, coords, tm2, lg)"
proof -
  have chunks: "gid_chunks (SupplyCurveExtent (tm_exclusions tm) (tm_resolution tm)) = Inr chunks"
    using assms(2) by (simp add: tm_sc_def)
  from assms(5) obtain dub where dub1: "distance_upper_bound (tm\<lparr>tm_n_cores := k1\<rparr>) = Inr (dub, tm1, lg)"
    and c1: "collect_resource tm fout dub chunks order1 (init_out_arrays (tm_sc tm)) = Inr (ind, coords)"
    by (auto simp: parallel_resource_map_def chunks collect_resource_n_cores tm_sc_def
        split: sum.splits prod.splits)
  from distance_upper_bound_n_cores_Inr [OF dub1]
  obtain tm' where dub: "distance_upper_bound tm = Inr (dub, tm', lg)" ..
  have "collect_resource tm fout dub chunks order2 (init_out_arrays (tm_sc tm)) = Inr (ind, coords)"
    using assms(3,4)
    by (intro collect_resource_order_independent [OF c1 assms(1) gid_chunks_Inr(2) [OF assms(2)]])
       (auto simp: completion_order_def)
  then show ?thesis
    by (simp add: parallel_resource_map_def chunks distance_upper_bound_n_cores dub
        collect_resource_n_cores tm_sc_def)
qed

theorem parallel_resource_map_deterministic_witness:
  "snd (parallel_resource_map (tm_example (Some (1 / 2)) two_sites\<lparr>tm_n_cores := 1\<rparr>) None [0, 1])
     = Inr ([0, 1, - 1], [(0, 0), (0, 1), (0, 2)], tm_example (Some (1 / 2)) two_sites\<lparr>tm_n_cores := 1\<rparr>, [])
   \<and> (\<exists>tm2. snd (parallel_resource_map (tm_example (Some (1 / 2)) two_sites\<lparr>tm_n_cores := 4\<rparr>) None [1, 0])
     = Inr ([0, 1, - 1], [(0, 0), (0, 1), (0, 2)], tm2, []))"
proof -
  have ch: "gid_chunks (tm_sc (tm_example (Some (1 / 2)) two_sites)) = Inr [[0, Suc 0], [2]]"
    by (simp add: tm_sc_def tm_example_simps chunks_line)
  have o1: "completion_order [0, 1] (length [[0, Suc 0], [2::nat]])"
    and o2: "completion_order [1, 0] (length [[0, Suc 0], [2::nat]])"
    by (auto simp: completion_order_def)
  have run: "snd (parallel_resource_map (tm_example (Some (1 / 2)) two_sites\<lparr>tm_n_cores := 1\<rparr>) None [0, 1])
     = Inr ([0, 1, - 1], [(0, 0), (0, 1), (0, 2)], tm_example (Some (1 / 2)) two_sites\<lparr>tm_n_cores := 1\<rparr>, [])"
    by (simp add: parallel_resource_map_def tm_example_simps chunks_line distance_upper_bound_def
     worker01 worker2 init_line flat_line np_setitem_def)
  have res: "0 < tm_resolution (tm_example (Some (1 / 2)) two_sites)"
    by (simp add: tm_example_simps)
  from parallel_resource_map_deterministic [OF res ch o1 o2 run, of 4] run show ?thesis
    by simp
qed

subsection \<open>A batch without candidate sites\<close>

lemma parallel_resource_map_Inr:
  assumes "snd (parallel_resource_map tm fout order) = Inr (ind, coords, tm', lg)"
    and "gid_chunks (tm_sc tm) = Inr chunks"
  shows "\<exists>dub. distance_upper_bound tm = Inr (dub, tm', lg)
     \<and> collect_vals (tm_sc tm) (ind_worker tm fout dub) chunks order
          (replicate (n_pixels (tm_sc tm)) (- 1)) = Inr ind
     \<and> collect_vals (tm_sc tm) (coords_worker tm fout dub) chunks order
          (replicate (n_pixels (tm_sc tm)) (0, 0)) = Inr coords"
proof -
  have chunks: "gid_chunks (SupplyCurveExtent (tm_exclusions tm) (tm_resolution tm)) = Inr chunks"
    using assms(2) by (simp add: tm_sc_def)
  from assms(1) obtain dub where dub: "distance_upper_bound tm = Inr (dub, tm', lg)"
    and c: "collect_resource tm fout dub chunks order (init_out_arrays (tm_sc tm)) = Inr (ind, coords)"
    by (auto simp: parallel_resource_map_def chunks tm_sc_def split: sum.splits prod.splits)
  from c have "collect_vals (tm_sc tm) (ind_worker tm fout dub) chunks order
          (replicate (n_pixels (tm_sc tm)) (- 1)) = Inr ind
     \<and> collect_vals (tm_sc tm) (coords_worker tm fout dub) chunks order
          (replicate (n_pixels (tm_sc tm)) (0, 0)) = Inr coords"
    by (simp add: init_out_arrays_def n_pixels_def collect_resource_vals)
  with dub show ?thesis by blast
qed

lemma parallel_resource_map_at:
  assumes par: "snd (parallel_resource_map tm fout order) = Inr (ind, coords, tm', lg)"
    and chunks: "gid_chunks (tm_sc tm) = Inr chunks"
    and res: "0 < tm_resolution tm"
    and order: "\<forall>i \<in> set order. i < length chunks"
    and i: "i \<in> set order"
  shows "\<exists>dub inds co. distance_upper_bound tm = Inr (dub, tm', lg)
     \<and> map_resource_gids (chunks ! i) (tm_exclusions tm) (tm_map_meta tm) fout dub
          (tm_resolution tm) (1 / 10) = Inr (inds, co)
     \<and> length ind = n_pixels (tm_sc tm) \<and> length coords = n_pixels (tm_sc tm)
     \<and> (\<forall>j < length (chunks ! i). \<forall>k < length (get_flat_excl_ind (tm_sc tm) (chunks ! i ! j)).
           ind ! (get_flat_excl_ind (tm_sc tm) (chunks ! i ! j) ! k)
             = pick (entry_values (inds ! j)) (length (get_flat_excl_ind (tm_sc tm) (chunks ! i ! j))) k
           \<and> coords ! (get_flat_excl_ind (tm_sc tm) (chunks ! i ! j) ! k)
             = pick (co ! j) (length (get_flat_excl_ind (tm_sc tm) (chunks ! i ! j))) k)"
proof -
  from parallel_resource_map_Inr [OF par chunks] obtain dub where
    dub: "distance_upper_bound tm = Inr (dub, tm', lg)"
    and ci: "collect_vals (tm_sc tm) (ind_worker tm fout dub) chunks order
          (replicate (n_pixels (tm_sc tm)) (- 1)) = Inr ind"
    and cc: "collect_vals (tm_sc tm) (coords_worker tm fout dub) chunks order
          (replicate (n_pixels (tm_sc tm)) (0, 0)) = Inr coords"
    by blast
  have res': "0 < sc_res (tm_sc tm)" using res by (simp add: tm_sc_def SupplyCurveExtent_def)
  note ok = gid_chunks_Inr(2) [OF chunks]
  note ai = collect_vals_Inr [OF ci res' ok order]
  note ac = collect_vals_Inr [OF cc res' ok order]
  from ai i obtain vs where vs: "ind_worker tm fout dub (chunks ! i) = Inr vs"
    and vi: "\<forall>j < length (chunks ! i). \<forall>k < length (get_flat_excl_ind (tm_sc tm) (chunks ! i ! j)).
           ind ! (get_flat_excl_ind (tm_sc tm) (chunks ! i ! j) ! k)
             = pick (vs ! j) (length (get_flat_excl_ind (tm_sc tm) (chunks ! i ! j))) k"
    by blast
  from ac i obtain cs where cs: "coords_worker tm fout dub (chunks ! i) = Inr cs"
    and vc: "\<forall>j < length (chunks ! i). \<forall>k < length (get_flat_excl_ind (tm_sc tm) (chunks ! i ! j)).
           coords ! (get_flat_excl_ind (tm_sc tm) (chunks ! i ! j) ! k)
             = pick (cs ! j) (length (get_flat_excl_ind (tm_sc tm) (chunks ! i ! j))) k"
    by blast
  from vs cs obtain inds where w: "map_resource_gids (chunks ! i) (tm_exclusions tm) (tm_map_meta tm) fout dub
          (tm_resolution tm) (1 / 10) = Inr (inds, cs)" and vs': "vs = map entry_values inds"
    by (cases "map_resource_gids (chunks ! i) (tm_exclusions tm) (tm_map_meta tm) fout dub
          (tm_resolution tm) (1 / 10)") (auto simp: ind_worker_def coords_worker_def)
  from map_resource_gids_lengths(1) [OF w] have "length inds = length (chunks ! i)" .
  with vi vs' have "\<forall>j < length (chunks ! i). \<forall>k < length (get_flat_excl_ind (tm_sc tm) (chunks ! i ! j)).
           ind ! (get_flat_excl_ind (tm_sc tm) (chunks ! i ! j) ! k)
             = pick (entry_values (inds ! j)) (length (get_flat_excl_ind (tm_sc tm) (chunks ! i ! j))) k"
    by simp
  with dub w vc ai ac show ?thesis by auto
qed

text \<open>
  C6: for a batch whose bounding box, widened by the margin, holds no resource site (the
  mask selects nothing), the worker raises nothing and returns the scalar \<open>-1\<close> for
  every gid of the batch; and in the index array that a parallel mapping assembles, under
  any completion order, every pixel of every gid of that batch holds \<open>-1\<close>.
\<close>

theorem no_candidate_batch:
  assumes "0 < tm_resolution tm"
    and "gid_chunks (tm_sc tm) = Inr chunks"
    and "i < length chunks"
    and "unpack_coords (chunks ! i) (tm_sc tm) fout = Inr (co, Some lat_range, Some lon_range)"
    and "mask_ind (tm_map_meta tm) lat_range lon_range (1 / 10) = []"
  shows "map_resource_gids (chunks ! i) (tm_exclusions tm) (tm_map_meta tm) fout dub
             (tm_resolution tm) (1 / 10)
           = Inr (map (\<lambda>_. Scalar (- 1)) (chunks ! i), co)
         \<and> (completion_order order (length chunks) \<longrightarrow>
              snd (parallel_resource_map tm fout order) = Inr (ind, coords, tm', lg) \<longrightarrow>
              (\<forall>g \<in> set (chunks ! i). \<forall>p \<in> set (get_flat_excl_ind (tm_sc tm) g). ind ! p = - 1))"
proof (intro conjI impI ballI)
  have ne: "chunks ! i \<noteq> []"
    using gid_chunks_Inr(4) [OF assms(2)] assms(3) by simp
  show w: "map_resource_gids (chunks ! i) (tm_exclusions tm) (tm_map_meta tm) fout dub
             (tm_resolution tm) (1 / 10)
           = Inr (map (\<lambda>_. Scalar (- 1)) (chunks ! i), co)" for dub
    using assms(4,5) ne by (intro map_resource_gids_no_site) (simp_all add: tm_sc_def)
  fix g p
  assume order: "completion_order order (length chunks)"
    and par: "snd (parallel_resource_map tm fout order) = Inr (ind, coords, tm', lg)"
    and g: "g \<in> set (chunks ! i)" and p: "p \<in> set (get_flat_excl_ind (tm_sc tm) g)"
  from g obtain j where j: "j < length (chunks ! i)" "chunks ! i ! j = g"
    by (auto simp: in_set_conv_nth)
  from p obtain k where k: "k < length (get_flat_excl_ind (tm_sc tm) g)"
    "get_flat_excl_ind (tm_sc tm) g ! k = p"
    by (auto simp: in_set_conv_nth)
  have o: "\<forall>i \<in> set order. i < length chunks" "i \<in> set order"
    using order assms(3) by (auto simp: completion_order_def)
  from parallel_resource_map_at [OF par assms(2,1) o] j k w
  have "ind ! p = pick (entry_values (map (\<lambda>_. Scalar (- 1)) (chunks ! i) ! j))
                    (length (get_flat_excl_ind (tm_sc tm) g)) k"
    by auto
  with j k show "ind ! p = - 1"
    by (simp add: pick_single)
qed

theorem no_candidate_batch_witness:
  "unpack_coords ([[0, Suc 0], [2]] ! 1) (tm_sc (tm_example (Some (1 / 2)) two_sites)) None
     = Inr ([[(0, 2)]], Some (0, 0), Some (2, 2))
   \<and> mask_ind two_sites (0, 0) (2, 2) (1 / 10) = []
   \<and> map_resource_gids [2] line_raster two_sites None (1 / 2) (Suc 0) (1 / 10)
       = Inr ([Scalar (- 1)], [[(0, 2)]])
   \<and> snd (parallel_resource_map (tm_example (Some (1 / 2)) two_sites) None [1, 0])
       = Inr ([0, 1, - 1], [(0, 0), (0, 1), (0, 2)], tm_example (Some (1 / 2)) two_sites, [])
   \<and> [0, 1, - 1 :: real] ! 2 = - 1"
proof -
  let ?tm = "tm_example (Some (1 / 2)) two_sites"
  have res: "0 < tm_resolution ?tm" by (simp add: tm_example_simps)
  have ch: "gid_chunks (tm_sc ?tm) = Inr [[0, Suc 0], [2]]"
    by (simp add: tm_sc_def tm_example_simps chunks_line)
  have i: "1 < length [[0, Suc 0], [2::nat]]" by simp
  have u: "unpack_coords ([[0, Suc 0], [2]] ! 1) (tm_sc ?tm) None
     = Inr ([[(0, 2)]], Some (0, 0), Some (2, 2))"
    by (simp add: tm_sc_def tm_example_simps unpack2)
  have m: "mask_ind (tm_map_meta ?tm) (0, 0) (2, 2) (1 / 10) = []"
    by (simp add: tm_example_simps mask2)
  have o: "completion_order [1, 0] (length [[0, Suc 0], [2::nat]])"
    by (auto simp: completion_order_def)
  have par: "snd (parallel_resource_map ?tm None [1, 0])
       = Inr ([0, 1, - 1], [(0, 0), (0, 1), (0, 2)], ?tm, [])"
    using par by simp
  from no_candidate_batch [OF res ch i u m, of "1 / 2" "[1, 0]" "[0, 1, - 1]" "[(0, 0), (0, 1), (0, 2)]" ?tm "[]"]
    o par u m
  show ?thesis
    by (simp add: tm_example_simps tm_sc_def flat_line)
qed

subsection \<open>The resource pass: nearest candidate site or sentinel\<close>

lemma clip_window:
  "snd rs \<le> n \<Longrightarrow> [fst (clip n rs)..<snd (clip n rs)] = [fst rs..<snd rs]"
  by (cases "fst rs \<le> n") (simp_all add: clip_def min_def)

lemma slices_in_raster:
  "snd (fst (get_excl_slices sc g)) \<le> excl_rows (sc_exclusions sc)"
  "snd (snd (get_excl_slices sc g)) \<le> excl_cols (sc_exclusions sc)"
  by (simp_all add: get_excl_slices_def Let_def chunk_slice_def)

lemma cell_col_lt:
  "(r, c) \<in> set (window_cells (fst (get_excl_slices sc g)) (snd (get_excl_slices sc g))) \<Longrightarrow>
   c < excl_cols (sc_exclusions sc)"
  using slices_in_raster(2) [of sc g] by (auto simp: set_window_cells in_slice_def)

lemma read_window_raster:
  assumes "dshape d = (excl_rows (sc_exclusions sc), excl_cols (sc_exclusions sc))"
  shows "read_window d (fst (get_excl_slices sc g)) (snd (get_excl_slices sc g))
           = map (\<lambda>p. ddata d ! p) (get_flat_excl_ind sc g)"
proof -
  have "window_cells (clip (excl_rows (sc_exclusions sc)) (fst (get_excl_slices sc g)))
          (clip (excl_cols (sc_exclusions sc)) (snd (get_excl_slices sc g)))
        = window_cells (fst (get_excl_slices sc g)) (snd (get_excl_slices sc g))"
    by (simp add: window_cells_def clip_window slices_in_raster)
  then show ?thesis
    using assms by (simp add: read_window_def get_flat_excl_ind_def split_beta comp_def)
qed

lemma gid_emeta_pixels:
  assumes em: "gid_emeta sc fout g = Inr em" and m: "cached_coords_match (sc_exclusions sc) fout"
  shows "em = map (pixel_coord (sc_exclusions sc) fout) (get_flat_excl_ind sc g)"
proof (cases fout)
  case None
  have "excl_coord (sc_exclusions sc) r c
        = pixel_coord (sc_exclusions sc) None (r * excl_cols (sc_exclusions sc) + c)"
    if "(r, c) \<in> set (window_cells (fst (get_excl_slices sc g)) (snd (get_excl_slices sc g)))" for r c
    using cell_col_lt [OF that] by (simp add: pixel_coord_def)
  then have "excl_meta (sc_exclusions sc) (fst (get_excl_slices sc g)) (snd (get_excl_slices sc g))
      = map (pixel_coord (sc_exclusions sc) None) (get_flat_excl_ind sc g)"
    by (auto simp: excl_meta_def get_flat_excl_ind_def split_beta)
  with em None show ?thesis
    by (simp add: gid_emeta_def split_beta)
next
  case (Some f)
  from em Some obtain la lo where la: "dsets f ''latitude'' = Some la" and lo: "dsets f ''longitude'' = Some lo"
    by (auto simp: gid_emeta_def split: prod.splits option.splits)
  from m Some la lo have sh: "dshape la = (excl_rows (sc_exclusions sc), excl_cols (sc_exclusions sc))"
    "dshape lo = (excl_rows (sc_exclusions sc), excl_cols (sc_exclusions sc))"
    by (simp_all add: cached_coords_match_def)
  from em Some la lo have "em = zip (read_window la (fst (get_excl_slices sc g)) (snd (get_excl_slices sc g)))
       (read_window lo (fst (get_excl_slices sc g)) (snd (get_excl_slices sc g)))"
    by (auto simp: gid_emeta_def split_beta split: if_splits)
  then show ?thesis
    using Some la lo by (simp add: read_window_raster sh zip_map_map pixel_coord_def zip_same_conv_map)
qed

lemma pixel_of_gid:
  assumes "0 < tm_resolution tm" and "gid_chunks (tm_sc tm) = Inr chunks" and "p < n_pixels (tm_sc tm)"
  shows "\<exists>i j k. i < length chunks \<and> j < length (chunks ! i) \<and> chunks ! i ! j = gid_of (tm_sc tm) p
     \<and> k < length (get_flat_excl_ind (tm_sc tm) (gid_of (tm_sc tm) p))
     \<and> get_flat_excl_ind (tm_sc tm) (gid_of (tm_sc tm) p) ! k = p"
proof -
  have res: "0 < sc_res (tm_sc tm)" using assms(1) by (simp add: tm_sc_res)
  have g: "gid_of (tm_sc tm) p < sc_len (tm_sc tm)" using gid_of_lt [OF res assms(3)] .
  then have "gid_of (tm_sc tm) p \<in> set (concat chunks)"
    using gid_chunks_Inr(1) [OF assms(2)] by simp
  then obtain c where "c \<in> set chunks" "gid_of (tm_sc tm) p \<in> set c" by auto
  then obtain i j where "i < length chunks" "j < length (chunks ! i)" "chunks ! i ! j = gid_of (tm_sc tm) p"
    by (metis in_set_conv_nth)
  moreover have "p \<in> set (get_flat_excl_ind (tm_sc tm) (gid_of (tm_sc tm) p))"
    using flat_mem [OF res g] assms(3) by simp
  then obtain k where "k < length (get_flat_excl_ind (tm_sc tm) (gid_of (tm_sc tm) p))"
     "get_flat_excl_ind (tm_sc tm) (gid_of (tm_sc tm) p) ! k = p"
    by (auto simp: in_set_conv_nth)
  ultimately show ?thesis by blast
qed

lemma mask_ind_lt: "j \<in> set (mask_ind sites la lo m) \<Longrightarrow> j < length sites"
  by (simp add: mask_ind_def)

lemma query_gid_nth:
  assumes "k < length cs" and "mask_ind sites la lo mg = m # ms"
  shows "query_gid sites m ms dub cs ! k = - 1
     \<or> (\<exists>j \<in> set (m # ms). query_gid sites m ms dub cs ! k = real j
          \<and> (\<forall>j' \<in> set (m # ms). euclid (site_coord (sites ! j)) (cs ! k)
                                      \<le> euclid (site_coord (sites ! j')) (cs ! k))
          \<and> euclid (site_coord (sites ! j)) (cs ! k) \<le> dub)"
proof -
  let ?pts = "site_coord (sites ! m) # map (\<lambda>i. site_coord (sites ! i)) ms"
  have pts: "?pts = map (\<lambda>i. site_coord (sites ! i)) (m # ms)" by simp
  obtain d i where q: "query (site_coord (sites ! m)) (map (\<lambda>i. site_coord (sites ! i)) ms) (cs ! k) = (d, i)"
    by (cases "query (site_coord (sites ! m)) (map (\<lambda>i. site_coord (sites ! i)) ms) (cs ! k)")
  from query_nearest [OF q] have i': "i < length ?pts"
    and d: "d = euclid (?pts ! i) (cs ! k)"
    and least: "\<forall>k' < length ?pts. d \<le> euclid (?pts ! k') (cs ! k)"
    by blast+
  from i' have i: "i < length (m # ms)" by simp
  have val: "query_gid sites m ms dub cs ! k = (if d > dub then - 1 else real ((m # ms) ! i))"
    using assms(1) q by (simp add: query_gid_def)
  show ?thesis
  proof (cases "d > dub")
    case True
    with val show ?thesis by simp
  next
    case False
    have dj: "d = euclid (site_coord (sites ! ((m # ms) ! i))) (cs ! k)"
      using d i unfolding pts by (simp only: nth_map)
    have "euclid (site_coord (sites ! ((m # ms) ! i))) (cs ! k) \<le> euclid (site_coord (sites ! j')) (cs ! k)"
      if "j' \<in> set (m # ms)" for j'
    proof -
      from that obtain k' where k': "k' < length (m # ms)" "(m # ms) ! k' = j'"
        by (metis in_set_conv_nth)
      then have "?pts ! k' = site_coord (sites ! j')"
        unfolding pts by (simp only: nth_map)
      with least k' dj show ?thesis by (metis length_map pts)
    qed
    moreover have "(m # ms) ! i \<in> set (m # ms)" using i by (simp only: nth_mem)
    ultimately show ?thesis
      using val False dj by (intro disjI2 bexI [of _ "(m # ms) ! i"]) auto
  qed
qed

lemma parallel_resource_map_nearest:
  assumes res: "0 < tm_resolution tm"
    and chunks: "gid_chunks (tm_sc tm) = Inr chunks"
    and order: "completion_order order (length chunks)"
    and cached: "cached_coords_match (tm_exclusions tm) fout"
    and par: "snd (parallel_resource_map tm fout order) = Inr (ind, coords, tm', lg)"
    and p: "p < n_pixels (tm_sc tm)"
  shows "ind ! p = - 1
     \<or> (\<exists>chunk \<in> set chunks. \<exists>j dub.
           gid_of (tm_sc tm) p \<in> set chunk \<and> ind ! p = real j
           \<and> j \<in> set (candidates tm fout chunk)
           \<and> (\<forall>j' \<in> set (candidates tm fout chunk). site_distance tm fout p j \<le> site_distance tm fout p j')
           \<and> resolved_bound tm = Some dub \<and> site_distance tm fout p j \<le> dub)"
proof -
  let ?sc = "tm_sc tm"
  let ?g = "gid_of ?sc p"
  let ?n = "length (get_flat_excl_ind ?sc ?g)"
  from pixel_of_gid [OF res chunks p] obtain i j k where i: "i < length chunks"
    and j: "j < length (chunks ! i)" "chunks ! i ! j = ?g"
    and k: "k < ?n" "get_flat_excl_ind ?sc ?g ! k = p"
    by blast
  have o: "\<forall>i \<in> set order. i < length chunks" "i \<in> set order"
    using order i by (auto simp: completion_order_def)
  from parallel_resource_map_at [OF par chunks res o] obtain dub inds co where
    dub: "distance_upper_bound tm = Inr (dub, tm', lg)"
    and w: "map_resource_gids (chunks ! i) (tm_exclusions tm) (tm_map_meta tm) fout dub
          (tm_resolution tm) (1 / 10) = Inr (inds, co)"
    and all: "\<forall>j < length (chunks ! i). \<forall>k < length (get_flat_excl_ind ?sc (chunks ! i ! j)).
           ind ! (get_flat_excl_ind ?sc (chunks ! i ! j) ! k)
             = pick (entry_values (inds ! j)) (length (get_flat_excl_ind ?sc (chunks ! i ! j))) k
           \<and> coords ! (get_flat_excl_ind ?sc (chunks ! i ! j) ! k)
             = pick (co ! j) (length (get_flat_excl_ind ?sc (chunks ! i ! j))) k"
    by blast
  from all j k have v: "ind ! p = pick (entry_values (inds ! j)) ?n k"
    by (metis (no_types, lifting))
  from map_resource_gids_Inr [OF w] obtain la lo where
    u: "unpack_coords (chunks ! i) ?sc fout = Inr (co, Some la, Some lo)"
    and c: "(case mask_ind (tm_map_meta tm) la lo (1 / 10) of
           [] \<Rightarrow> inds = map (\<lambda>_. Scalar (- 1)) (chunks ! i)
         | m # ms \<Rightarrow> inds = map (\<lambda>c. Array (query_gid (tm_map_meta tm) m ms dub c)) co)"
    by (auto simp: tm_sc_def)
  have cand: "candidates tm fout (chunks ! i) = mask_ind (tm_map_meta tm) la lo (1 / 10)"
    using u by (simp add: candidates_def)
  show ?thesis
  proof (cases "mask_ind (tm_map_meta tm) la lo (1 / 10)")
    case Nil
    with c j v k show ?thesis by (simp add: pick_single)
  next
    case (Cons m ms)
    have len: "length co = length (chunks ! i)" using unpack_coords_Inr(1) [OF u] .
    have em: "gid_emeta ?sc fout ?g = Inr (co ! j)"
      using unpack_coords_Inr(2) [OF u j(1)] j(2) by simp
    have cached': "cached_coords_match (sc_exclusions ?sc) fout"
      using cached by (simp add: tm_sc_def SupplyCurveExtent_def)
    have coj: "co ! j = map (pixel_coord (tm_exclusions tm) fout) (get_flat_excl_ind ?sc ?g)"
      using gid_emeta_pixels [OF em cached'] by (simp add: tm_sc_def SupplyCurveExtent_def)
    then have lenj: "length (co ! j) = ?n" and cok: "co ! j ! k = pixel_coord (tm_exclusions tm) fout p"
      using k by simp_all
    from c Cons j len have "inds ! j = Array (query_gid (tm_map_meta tm) m ms dub (co ! j))"
      by simp
    with v lenj k have val: "ind ! p = query_gid (tm_map_meta tm) m ms dub (co ! j) ! k"
      by (simp add: pick_def query_gid_def)
    have kk: "k < length (co ! j)" using k lenj by simp
    from query_gid_nth [OF kk Cons, of dub] show ?thesis
    proof
      assume "query_gid (tm_map_meta tm) m ms dub (co ! j) ! k = - 1"
      with val show ?thesis by simp
    next
      assume "\<exists>j' \<in> set (m # ms). query_gid (tm_map_meta tm) m ms dub (co ! j) ! k = real j'
          \<and> (\<forall>j'' \<in> set (m # ms). euclid (site_coord (tm_map_meta tm ! j')) (co ! j ! k)
                                      \<le> euclid (site_coord (tm_map_meta tm ! j'')) (co ! j ! k))
          \<and> euclid (site_coord (tm_map_meta tm ! j')) (co ! j ! k) \<le> dub"
      then obtain j' where j': "j' \<in> set (m # ms)" "query_gid (tm_map_meta tm) m ms dub (co ! j) ! k = real j'"
          "\<forall>j'' \<in> set (m # ms). euclid (site_coord (tm_map_meta tm ! j')) (co ! j ! k)
                                      \<le> euclid (site_coord (tm_map_meta tm ! j'')) (co ! j ! k)"
          "euclid (site_coord (tm_map_meta tm ! j')) (co ! j ! k) \<le> dub"
        by blast
      have "chunks ! i \<in> set chunks" using i by simp
      moreover have "?g \<in> set (chunks ! i)" using j by (metis nth_mem)
      moreover have "resolved_bound tm = Some dub" using dub by (simp add: resolved_bound_def)
      ultimately show ?thesis
        using j' val cand Cons cok
        by (intro disjI2 bexI [of _ "chunks ! i"] exI [of _ j'] exI [of _ dub])
           (simp_all add: site_distance_def)
    qed
  qed
qed


lemma save_tech_map_Inr:
  assumes "save_tech_map tm ind coords out dset fs = (fs', Inr (tm'', lg))"
  shows "\<exists>d dub. distance_upper_bound tm = Inr (dub, tm'', lg)
     \<and> write_ind (base_file tm coords (fs (h5_path out))) dset (raster_shape tm) ind = Inr d
     \<and> fs' = fs(h5_path out \<mapsto> (base_file tm coords (fs (h5_path out)))
                \<lparr>dsets := (dsets (base_file tm coords (fs (h5_path out))))(dset \<mapsto>
                    d\<lparr>dattr_fpath := Some (tm_fpath_map tm), dattr_dub := Some dub\<rparr>)\<rparr>)"
proof (cases "fs (h5_path out)")
  case None
  show ?thesis
  proof (cases coords)
    case n: None
    with None assms show ?thesis
      by (auto simp: save_tech_map_def Let_def base_file_def raster_shape_def split: sum.splits)
  next
    case (Some cs)
    with None assms show ?thesis
      by (auto simp: save_tech_map_def Let_def base_file_def raster_shape_def split: sum.splits)
  qed
next
  case (Some f)
  with assms show ?thesis
    by (auto simp: save_tech_map_def Let_def base_file_def raster_shape_def split: sum.splits)
qed

lemma write_ind_Inr:
  "write_ind f dset shape ind = Inr d \<Longrightarrow> ddata d = ind \<and> dshape d = shape"
  by (auto simp: write_ind_def new_dataset_def split: option.splits if_splits)

lemma run_resource_map_ok:
  assumes "r_error (run_resource_map tm order fs) = None"
  shows "\<exists>w ind coords tm' lg tm'' lg'.
     check_fout (fs (tm_fpath_out tm)) (tm_fpath_excl tm) (tm_dset tm) = (w, None)
     \<and> snd (parallel_resource_map tm (fs (tm_fpath_out tm)) order) = Inr (ind, coords, tm', lg)
     \<and> save_tech_map tm' ind (Some coords) (tm_fpath_out tm) (tm_dset tm) fs
          = (r_files (run_resource_map tm order fs), Inr (tm'', lg'))"
  using assms
  by (auto simp: run_resource_map_def split: prod.splits option.splits sum.splits)

lemma collect_vals_length:
  "collect_vals sc W chunks order acc = Inr acc' \<Longrightarrow> length acc' = length acc"
proof (induction order arbitrary: acc)
  case Nil
  then show ?case by simp
next
  case (Cons i order)
  from Cons.prems obtain vs a where "scatter_vals sc (chunks ! i) vs acc = Inr a"
    and rest: "collect_vals sc W chunks order a = Inr acc'"
    by (auto split: sum.splits)
  with Cons.IH [OF rest] scatter_vals_length show ?case by fastforce
qed

lemma parallel_resource_map_length:
  assumes "snd (parallel_resource_map tm fout order) = Inr (ind, coords, tm', lg)"
    and "gid_chunks (tm_sc tm) = Inr chunks"
  shows "length ind = n_pixels (tm_sc tm)" and "length coords = n_pixels (tm_sc tm)"
  using parallel_resource_map_Inr [OF assms] by (auto dest: collect_vals_length)

text \<open>
  C1: after a resource run that ended without an exception, the stored index map has one
  entry per pixel, and the entry of every pixel \<open>p\<close> is \<open>-1\<close> or the position \<open>j\<close>
  in the resource meta of a candidate site of the batch of \<open>p\<close>'s gid that is nearest to
  \<open>p\<close>'s coordinates among the candidates, at a distance of at most the resolved
  \<^verbatim>\<open>distance_upper_bound\<close>. (A cached coordinate map is taken to have the raster's
  shape; the order of completion is any.)
\<close>

theorem index_map_nearest_site:
  assumes "0 < tm_resolution tm"
    and "gid_chunks (tm_sc tm) = Inr chunks"
    and "completion_order order (length chunks)"
    and "cached_coords_match (tm_exclusions tm) (fs (tm_fpath_out tm))"
    and "r_error (run_resource_map tm order fs) = None"
    and "p < n_pixels (tm_sc tm)"
  shows "\<exists>f d. r_files (run_resource_map tm order fs) (h5_path (tm_fpath_out tm)) = Some f
     \<and> dsets f (tm_dset tm) = Some d \<and> length (ddata d) = n_pixels (tm_sc tm)
     \<and> (ddata d ! p = - 1
        \<or> (\<exists>chunk \<in> set chunks. \<exists>j dub.
             gid_of (tm_sc tm) p \<in> set chunk \<and> ddata d ! p = real j
             \<and> j \<in> set (candidates tm (fs (tm_fpath_out tm)) chunk)
             \<and> (\<forall>j' \<in> set (candidates tm (fs (tm_fpath_out tm)) chunk).
                   site_distance tm (fs (tm_fpath_out tm)) p j
                     \<le> site_distance tm (fs (tm_fpath_out tm)) p j')
             \<and> resolved_bound tm = Some dub
             \<and> site_distance tm (fs (tm_fpath_out tm)) p j \<le> dub))"
proof -
  from run_resource_map_ok [OF assms(5)] obtain w ind coords tm' lg tm'' lg' where
    par: "snd (parallel_resource_map tm (fs (tm_fpath_out tm)) order) = Inr (ind, coords, tm', lg)"
    and save: "save_tech_map tm' ind (Some coords) (tm_fpath_out tm) (tm_dset tm) fs
          = (r_files (run_resource_map tm order fs), Inr (tm'', lg'))"
    by blast
  from save_tech_map_Inr [OF save] obtain d dub where
    wr: "write_ind (base_file tm' (Some coords) (fs (h5_path (tm_fpath_out tm)))) (tm_dset tm) (raster_shape tm') ind = Inr d"
    and fs': "r_files (run_resource_map tm order fs) = fs(h5_path (tm_fpath_out tm) \<mapsto>
                (base_file tm' (Some coords) (fs (h5_path (tm_fpath_out tm))))
                \<lparr>dsets := (dsets (base_file tm' (Some coords) (fs (h5_path (tm_fpath_out tm)))))(tm_dset tm \<mapsto>
                    d\<lparr>dattr_fpath := Some (tm_fpath_map tm'), dattr_dub := Some dub\<rparr>)\<rparr>)"
    by blast
  have dd: "ddata d = ind" using write_ind_Inr [OF wr] by simp
  have o: "\<forall>i \<in> set order. i < length chunks" using assms(3) by (auto simp: completion_order_def)
  have len: "length ind = n_pixels (tm_sc tm)"
    using parallel_resource_map_length(1) [OF par assms(2)] .
  note near = parallel_resource_map_nearest [OF assms(1,2,3,4) par assms(6)]
  show ?thesis
    apply (rule exI [of _ "(base_file tm' (Some coords) (fs (h5_path (tm_fpath_out tm))))
                \<lparr>dsets := (dsets (base_file tm' (Some coords) (fs (h5_path (tm_fpath_out tm)))))(tm_dset tm \<mapsto>
                    d\<lparr>dattr_fpath := Some (tm_fpath_map tm'), dattr_dub := Some dub\<rparr>)\<rparr>"])
    apply (rule exI [of _ "d\<lparr>dattr_fpath := Some (tm_fpath_map tm'), dattr_dub := Some dub\<rparr>"])
    using near len dd fs' by simp
qed

lemma h5_path_out: "h5_path ''out.h5'' = ''out.h5''"
  by (simp add: h5_path_def endswith_def)

lemma run_line_ok:
  "r_error (run_resource_map (tm_example (Some (1 / 2)) two_sites) [1, 0] Map.empty) = None"
  using par
  by (simp add: run_resource_map_def check_fout_def tm_example_simps save_tech_map_def
      h5_path_out write_ind_def distance_upper_bound_def Let_def coords_file_def)

lemma n_pixels_line: "n_pixels (tm_sc (tm_example d m)) = 3"
  by (simp add: n_pixels_def tm_sc_def tm_example_simps SupplyCurveExtent_def line_raster_def)

theorem index_map_nearest_site_witness:
  "r_error (run_resource_map (tm_example (Some (1 / 2)) two_sites) [1, 0] Map.empty) = None
   \<and> (\<exists>f d. r_files (run_resource_map (tm_example (Some (1 / 2)) two_sites) [1, 0] Map.empty)
              (h5_path ''out.h5'') = Some f
     \<and> dsets f ''tech_map'' = Some d \<and> length (ddata d) = 3
     \<and> (ddata d ! 1 = - 1
        \<or> (\<exists>chunk \<in> set [[0, Suc 0], [2]]. \<exists>j dub.
             gid_of (tm_sc (tm_example (Some (1 / 2)) two_sites)) 1 \<in> set chunk \<and> ddata d ! 1 = real j
             \<and> j \<in> set (candidates (tm_example (Some (1 / 2)) two_sites) None chunk)
             \<and> (\<forall>j' \<in> set (candidates (tm_example (Some (1 / 2)) two_sites) None chunk).
                   site_distance (tm_example (Some (1 / 2)) two_sites) None 1 j
                     \<le> site_distance (tm_example (Some (1 / 2)) two_sites) None 1 j')
             \<and> resolved_bound (tm_example (Some (1 / 2)) two_sites) = Some dub
             \<and> site_distance (tm_example (Some (1 / 2)) two_sites) None 1 j \<le> dub)))"
proof -
  let ?tm = "tm_example (Some (1 / 2)) two_sites"
  have res: "0 < tm_resolution ?tm" by (simp add: tm_example_simps)
  have ch: "gid_chunks (tm_sc ?tm) = Inr [[0, Suc 0], [2]]"
    by (simp add: tm_sc_def tm_example_simps chunks_line)
  have o: "completion_order [1, 0] (length [[0, Suc 0], [2::nat]])"
    by (auto simp: completion_order_def)
  have c: "cached_coords_match (tm_exclusions ?tm) (Map.empty (tm_fpath_out ?tm))"
    by (simp add: cached_coords_match_def)
  have p: "1 < n_pixels (tm_sc ?tm)" by (simp add: n_pixels_line)
  from index_map_nearest_site [OF res ch o c run_line_ok p] run_line_ok
  show ?thesis
    by (simp add: tm_example_simps n_pixels_line)
qed

subsection \<open>Running the resource pass again\<close>











lemma tm_sc_exclusions: "sc_exclusions (tm_sc tm) = tm_exclusions tm"
  by (simp add: tm_sc_def SupplyCurveExtent_def)





subsection \<open>The generation pass\<close>

lemma merge_left_rows: "merge_left xs gen_meta = concat (map (merge_row gen_meta) xs)"
proof -
  have "merge_row gen_meta
      = (\<lambda>r. case filter (\<lambda>i. real (gid (gen_meta ! i)) = r) [0..<length gen_meta] of
               [] \<Rightarrow> [None] | i # js \<Rightarrow> map Some (i # js))"
    by (rule ext) (simp add: merge_row_def gid_matches_def)
  then show ?thesis by (simp add: merge_left_def)
qed

lemma length_merge_row: "merge_row gen_meta r \<noteq> []"
  by (simp add: merge_row_def split: list.splits)

lemma length_concat_ge:
  "(\<forall>x \<in> set xs. f x \<noteq> []) \<Longrightarrow> length xs \<le> length (concat (map f xs))"
proof (induction xs)
  case Nil
  show ?case by simp
next
  case (Cons x xs)
  then have "f x \<noteq> []" "length xs \<le> length (concat (map f xs))" by simp_all
  then show ?case by (cases "f x") simp_all
qed

lemma concat_singletons:
  "(\<forall>x \<in> set xs. f x \<noteq> []) \<Longrightarrow> length (concat (map f xs)) = length xs \<Longrightarrow>
   (\<forall>x \<in> set xs. length (f x) = 1) \<and> concat (map f xs) = map (\<lambda>x. hd (f x)) xs"
proof (induction xs)
  case Nil
  then show ?case by simp
next
  case (Cons x xs)
  have ge: "length xs \<le> length (concat (map f xs))"
    using Cons.prems(1) by (intro length_concat_ge) simp
  have "f x \<noteq> []" using Cons.prems(1) by simp
  then have pos: "0 < length (f x)" by (cases "f x") simp_all
  from Cons.prems(2) have "length (f x) + length (concat (map f xs)) = Suc (length xs)" by simp
  with ge pos have one: "length (f x) = 1" and rest: "length (concat (map f xs)) = length xs"
    by linarith+
  from one obtain y where y: "f x = [y]" by (cases "f x") simp_all
  from Cons.IH [OF _ rest] Cons.prems(1) one y show ?case by simp
qed

lemma length_merge_left_ge: "length xs \<le> length (merge_left xs gen_meta)"
  unfolding merge_left_rows by (rule length_concat_ge) (simp add: length_merge_row)

lemma merge_left_nth:
  assumes len: "length (merge_left xs gen_meta) = length xs" and k: "k < length xs"
  shows "(\<forall>i < length gen_meta. real (gid (gen_meta ! i)) = xs ! k
            \<longrightarrow> fill_nan (merge_left xs gen_meta) ! k = real i)
       \<and> ((\<forall>i < length gen_meta. real (gid (gen_meta ! i)) \<noteq> xs ! k)
            \<longrightarrow> fill_nan (merge_left xs gen_meta) ! k = - 1)"
proof -
  have pos: "\<forall>x \<in> set xs. merge_row gen_meta x \<noteq> []"
    by (simp add: length_merge_row)
  from concat_singletons [OF pos len [unfolded merge_left_rows]]
  have one: "length (merge_row gen_meta (xs ! k)) = 1"
    and eq: "merge_left xs gen_meta = map (\<lambda>x. hd (merge_row gen_meta x)) xs"
    using k by (simp_all add: merge_left_rows)
  have val: "fill_nan (merge_left xs gen_meta) ! k
      = (case hd (merge_row gen_meta (xs ! k)) of None \<Rightarrow> - 1 | Some i \<Rightarrow> real i)"
    using k by (simp add: eq fill_nan_def)
  have mem: "(i \<in> set (gid_matches gen_meta (xs ! k)))
      = (i < length gen_meta \<and> real (gid (gen_meta ! i)) = xs ! k)" for i
    by (auto simp: gid_matches_def)
  show ?thesis
  proof (cases "gid_matches gen_meta (xs ! k)")
    case Nil
    then have "\<forall>i < length gen_meta. real (gid (gen_meta ! i)) \<noteq> xs ! k"
      using mem by (metis empty_iff list.set(1))
    with val Nil show ?thesis by (simp add: merge_row_def)
  next
    case (Cons i js)
    with one have js: "js = []" by (simp add: merge_row_def)
    then have set: "set (gid_matches gen_meta (xs ! k)) = {i}" using Cons by simp
    have v: "fill_nan (merge_left xs gen_meta) ! k = real i"
      using val Cons by (simp add: merge_row_def)
    have "i' = i" if "i' < length gen_meta" "real (gid (gen_meta ! i')) = xs ! k" for i'
      using that mem [of i'] set by simp
    moreover have "i < length gen_meta \<and> real (gid (gen_meta ! i)) = xs ! k"
      using mem [of i] set by simp
    ultimately show ?thesis using v by auto
  qed
qed

lemma parallel_gen_map_Inr:
  assumes "snd (parallel_gen_map tm fout res_map_dset order) = Inr ind"
    and "gid_chunks (tm_sc tm) = Inr chunks"
  shows "collect_vals (tm_sc tm) (gen_worker tm fout res_map_dset) chunks order
           (replicate (n_pixels (tm_sc tm)) (- 1)) = Inr ind"
proof -
  have ch: "gid_chunks (SupplyCurveExtent (tm_exclusions tm) (tm_resolution tm)) = Inr chunks"
    using assms(2) by (simp add: tm_sc_def)
  from assms(1) show ?thesis
    by (auto simp: parallel_gen_map_def ch collect_gen_vals init_out_arrays_def n_pixels_def
        tm_sc_def split: option.splits if_splits)
qed

lemma gen_worker_nth:
  assumes "gen_worker tm (Some f) res_map_dset gids = Inr vs"
    and "dsets f res_map_dset = Some d"
    and "dshape d = (excl_rows (tm_exclusions tm), excl_cols (tm_exclusions tm))"
    and "j < length gids"
  shows "vs ! j = fill_nan (merge_left (map (\<lambda>p. ddata d ! p) (get_flat_excl_ind (tm_sc tm) (gids ! j)))
                    (tm_map_meta tm))"
proof -
  have sh: "dshape d = (excl_rows (sc_exclusions (tm_sc tm)), excl_cols (sc_exclusions (tm_sc tm)))"
    using assms(3) by (simp add: tm_sc_exclusions)
  from assms(1,2) have "vs = map entry_values
      (map (\<lambda>g. case get_excl_slices (tm_sc tm) g of
                  (rs, cs) \<Rightarrow> Array (fill_nan (merge_left (read_window d rs cs) (tm_map_meta tm)))) gids
       @ map (\<lambda>_. Scalar (- 1)) gids)"
    by (auto simp: gen_worker_def map_gen_gids_def tm_sc_def split: if_splits)
  then have "vs ! j = fill_nan (merge_left (read_window d (fst (get_excl_slices (tm_sc tm) (gids ! j)))
         (snd (get_excl_slices (tm_sc tm) (gids ! j)))) (tm_map_meta tm))"
    using assms(4) by (simp add: nth_append split_beta)
  then show ?thesis
    by (simp add: read_window_raster [OF sh])
qed

lemma run_gen_map_ok:
  assumes "r_error (run_gen_map tm res_map_dset order fs) = None"
  shows "\<exists>ind tm'' lg'.
     snd (parallel_gen_map tm (fs (tm_fpath_out tm)) res_map_dset order) = Inr ind
     \<and> save_tech_map tm ind None (tm_fpath_out tm) (tm_dset tm) fs
          = (r_files (run_gen_map tm res_map_dset order fs), Inr (tm'', lg'))"
  using assms
  by (auto simp: run_gen_map_def split: prod.splits option.splits sum.splits)

lemma length_fill_nan: "length (fill_nan xs) = length xs"
  by (simp add: fill_nan_def)

lemma parallel_gen_map_pixel:
  assumes res: "0 < tm_resolution tm"
    and chunks: "gid_chunks (tm_sc tm) = Inr chunks"
    and order: "completion_order order (length chunks)"
    and f: "dsets f res_map_dset = Some dres"
    and shape: "dshape dres = raster_shape tm"
    and par: "snd (parallel_gen_map tm (Some f) res_map_dset order) = Inr ind"
    and p: "p < n_pixels (tm_sc tm)"
  shows "length ind = n_pixels (tm_sc tm)
     \<and> (\<forall>i < length (tm_map_meta tm). real (gid (tm_map_meta tm ! i)) = ddata dres ! p
            \<longrightarrow> ind ! p = real i)
     \<and> ((\<forall>i < length (tm_map_meta tm). real (gid (tm_map_meta tm ! i)) \<noteq> ddata dres ! p)
            \<longrightarrow> ind ! p = - 1)"
proof -
  let ?sc = "tm_sc tm"
  let ?g = "gid_of ?sc p"
  let ?flat = "get_flat_excl_ind ?sc ?g"
  let ?xs = "map (\<lambda>p. ddata dres ! p) ?flat"
  note col = parallel_gen_map_Inr [OF par chunks]
  have res': "0 < sc_res ?sc" using res by (simp add: tm_sc_res)
  from pixel_of_gid [OF res chunks p] obtain i j k where i: "i < length chunks"
    and j: "j < length (chunks ! i)" "chunks ! i ! j = ?g"
    and k: "k < length ?flat" "?flat ! k = p"
    by blast
  have o: "\<forall>i \<in> set order. i < length chunks" and io: "i \<in> set order"
    using order i by (auto simp: completion_order_def)
  from collect_vals_Inr [OF col res' gid_chunks_Inr(2) [OF chunks] o] io obtain vs where
    vs: "gen_worker tm (Some f) res_map_dset (chunks ! i) = Inr vs"
    and all: "\<forall>j < length (chunks ! i). \<forall>k < length (get_flat_excl_ind ?sc (chunks ! i ! j)).
           ind ! (get_flat_excl_ind ?sc (chunks ! i ! j) ! k)
             = pick (vs ! j) (length (get_flat_excl_ind ?sc (chunks ! i ! j))) k"
    by blast
  from all j k have v: "ind ! p = pick (vs ! j) (length ?flat) k"
    by (metis (no_types, lifting))
  have "\<exists>acc'. collect_vals ?sc (gen_worker tm (Some f) res_map_dset) chunks order
           (replicate (n_pixels ?sc) (- 1)) = Inr acc'"
    using col by blast
  then have "scatter_ok ?sc (chunks ! i) vs (n_pixels ?sc)"
    using io vs by (auto simp: collect_vals_ok)
  then have lens: "length (vs ! j) = length (get_flat_excl_ind ?sc (chunks ! i ! j)) \<or> length (vs ! j) = 1"
    using j(1) by (simp add: scatter_ok_def)
  have sh: "dshape dres = (excl_rows (tm_exclusions tm), excl_cols (tm_exclusions tm))"
    using shape by (simp add: raster_shape_def)
  have vj: "vs ! j = fill_nan (merge_left ?xs (tm_map_meta tm))"
    using gen_worker_nth [OF vs f sh j(1)] j(2) by simp
  have "length ?xs \<le> length (vs ! j)"
    unfolding vj length_fill_nan by (rule length_merge_left_ge)
  with lens j(2) k(1) have len: "length (vs ! j) = length ?flat"
    by auto
  then have ml: "length (merge_left ?xs (tm_map_meta tm)) = length ?xs"
    by (simp add: vj length_fill_nan)
  have kx: "k < length ?xs" using k by simp
  have "ind ! p = fill_nan (merge_left ?xs (tm_map_meta tm)) ! k"
    using v len vj by (simp add: pick_def)
  moreover have "?xs ! k = ddata dres ! p" using k by simp
  ultimately show ?thesis
    using merge_left_nth [OF ml kx] collect_vals_length [OF col] by simp
qed

text \<open>
  C2: a generation run that ended without an exception, on an output file whose stored
  resource map has the shape of the exclusion raster, leaves a generation index map with
  one entry per pixel. At every pixel \<open>p\<close> with stored resource id \<open>r\<close>: if a row of the
  generation meta has \<open>r\<close> in its \<^verbatim>\<open>gid\<close> column, the entry is that row's position; if no
  row has it, the entry is \<open>-1\<close>; in particular it is \<open>-1\<close> where \<open>r\<close> is \<open>-1\<close>.
\<close>

theorem gen_map_row_position:
  assumes "0 < tm_resolution tm"
    and "gid_chunks (tm_sc tm) = Inr chunks"
    and "completion_order order (length chunks)"
    and "fs (tm_fpath_out tm) = Some f"
    and "dsets f res_map_dset = Some dres"
    and "dshape dres = raster_shape tm"
    and "r_error (run_gen_map tm res_map_dset order fs) = None"
    and "p < n_pixels (tm_sc tm)"
  shows "\<exists>f' d. r_files (run_gen_map tm res_map_dset order fs) (h5_path (tm_fpath_out tm)) = Some f'
     \<and> dsets f' (tm_dset tm) = Some d \<and> length (ddata d) = n_pixels (tm_sc tm)
     \<and> (\<forall>i < length (tm_map_meta tm). real (gid (tm_map_meta tm ! i)) = ddata dres ! p
            \<longrightarrow> ddata d ! p = real i)
     \<and> ((\<forall>i < length (tm_map_meta tm). real (gid (tm_map_meta tm ! i)) \<noteq> ddata dres ! p)
            \<longrightarrow> ddata d ! p = - 1)
     \<and> (ddata dres ! p = - 1 \<longrightarrow> ddata d ! p = - 1)"
proof -
  from run_gen_map_ok [OF assms(7)] obtain ind tm'' lg' where
    par: "snd (parallel_gen_map tm (fs (tm_fpath_out tm)) res_map_dset order) = Inr ind"
    and save: "save_tech_map tm ind None (tm_fpath_out tm) (tm_dset tm) fs
          = (r_files (run_gen_map tm res_map_dset order fs), Inr (tm'', lg'))"
    by blast
  from save_tech_map_Inr [OF save] obtain d dub where
    wr: "write_ind (base_file tm None (fs (h5_path (tm_fpath_out tm)))) (tm_dset tm) (raster_shape tm) ind = Inr d"
    and fs': "r_files (run_gen_map tm res_map_dset order fs) = fs(h5_path (tm_fpath_out tm) \<mapsto>
                (base_file tm None (fs (h5_path (tm_fpath_out tm))))
                \<lparr>dsets := (dsets (base_file tm None (fs (h5_path (tm_fpath_out tm)))))(tm_dset tm \<mapsto>
                    d\<lparr>dattr_fpath := Some (tm_fpath_map tm), dattr_dub := Some dub\<rparr>)\<rparr>)"
    by blast
  have dd: "ddata d = ind" using write_ind_Inr [OF wr] by simp
  from par assms(4) have par': "snd (parallel_gen_map tm (Some f) res_map_dset order) = Inr ind"
    by simp
  note px = parallel_gen_map_pixel [OF assms(1,2,3,5,6) par' assms(8)]
  have neg: "real (gid (tm_map_meta tm ! i)) \<noteq> - 1" for i
  proof -
    have "0 \<le> real (gid (tm_map_meta tm ! i))" by simp
    then show ?thesis by linarith
  qed
  have "ddata dres ! p = - 1 \<longrightarrow> ind ! p = - 1"
    using px neg by metis
  with px show ?thesis
    apply (intro exI [of _ "(base_file tm None (fs (h5_path (tm_fpath_out tm))))
                \<lparr>dsets := (dsets (base_file tm None (fs (h5_path (tm_fpath_out tm)))))(tm_dset tm \<mapsto>
                    d\<lparr>dattr_fpath := Some (tm_fpath_map tm), dattr_dub := Some dub\<rparr>)\<rparr>"]
        exI [of _ "d\<lparr>dattr_fpath := Some (tm_fpath_map tm), dattr_dub := Some dub\<rparr>"])
    using dd fs' by simp
qed

lemma res_file_dsets: "dsets (res_file xs) ''res'' = Some (new_dataset (1, 3) xs)"
  by (simp add: res_file_def)

lemma raster_shape_line: "raster_shape (tm_example d m) = (1, 3)"
  by (simp add: raster_shape_def tm_example_simps line_raster_def)

lemma res_file_tech_map: "dsets (res_file xs) ''tech_map'' = None"
  by (simp add: res_file_def)

lemma par_gen:
  "parallel_gen_map (tm_example (Some (1 / 2)) gen_meta_example) (Some (res_file [0, 1, - 1]))
     ''res'' [1, 0] = (2, Inr [1, 0, - 1])"
  by code_simp

lemma check_fout_line:
  "check_fout (Some (res_file [0, 1, - 1])) ''excl.tif'' ''tech_map'' = (None, None)"
  by code_simp

lemma run_gen_line_ok:
  "r_error (run_gen_map (tm_example (Some (1 / 2)) gen_meta_example) ''res'' [1, 0]
      [''out.h5'' \<mapsto> res_file [0, 1, - 1]]) = None"
  using par_gen
  by (simp add: run_gen_map_def check_fout_line tm_example_simps save_tech_map_def res_file_tech_map
      h5_path_out write_ind_def distance_upper_bound_def Let_def coords_file_def)

theorem gen_map_row_position_witness:
  "r_error (run_gen_map (tm_example (Some (1 / 2)) gen_meta_example) ''res'' [1, 0]
      [''out.h5'' \<mapsto> res_file [0, 1, - 1]]) = None
   \<and> (\<exists>f' d. r_files (run_gen_map (tm_example (Some (1 / 2)) gen_meta_example) ''res'' [1, 0]
                 [''out.h5'' \<mapsto> res_file [0, 1, - 1]]) (h5_path ''out.h5'') = Some f'
     \<and> dsets f' ''tech_map'' = Some d \<and> length (ddata d) = 3
     \<and> (\<forall>i < length gen_meta_example. real (gid (gen_meta_example ! i)) = 1 \<longrightarrow> ddata d ! 1 = real i)
     \<and> ((\<forall>i < length gen_meta_example. real (gid (gen_meta_example ! i)) \<noteq> 1) \<longrightarrow> ddata d ! 1 = - 1))"
proof -
  let ?tm = "tm_example (Some (1 / 2)) gen_meta_example"
  let ?fs = "[''out.h5'' \<mapsto> res_file [0, 1, - 1]]"
  have res: "0 < tm_resolution ?tm" by (simp add: tm_example_simps)
  have ch: "gid_chunks (tm_sc ?tm) = Inr [[0, Suc 0], [2]]"
    by (simp add: tm_sc_def tm_example_simps chunks_line)
  have o: "completion_order [1, 0] (length [[0, Suc 0], [2::nat]])"
    by (auto simp: completion_order_def)
  have f: "?fs (tm_fpath_out ?tm) = Some (res_file [0, 1, - 1])"
    by (simp add: tm_example_simps)
  have sh: "dshape (new_dataset (1, 3) [0, 1, - 1]) = raster_shape ?tm"
    by (simp add: raster_shape_line new_dataset_def)
  have p: "1 < n_pixels (tm_sc ?tm)" by (simp add: n_pixels_line)
  from gen_map_row_position [OF res ch o f res_file_dsets sh run_gen_line_ok p] run_gen_line_ok
  show ?thesis
    by (simp add: tm_example_simps n_pixels_line new_dataset_def)
qed


end
